theory Spec2Isabelle
  imports Complex_Main "HOL-Library.Multiset"
begin

section \<open>JavaScript values used by the orchestrator\<close>

text \<open>
  A JavaScript number is a finite value, one of the two infinities, or NaN. Finite values
  are idealised as rationals: rounding of IEEE doubles is not modelled.
\<close>

datatype jsnum = Num rat | PosInf | NegInf | NaN

fun isFinite :: "jsnum \<Rightarrow> bool" where
  "isFinite (Num r) = True"
| "isFinite PosInf = False"
| "isFinite NegInf = False"
| "isFinite NaN = False"

fun gt_zero :: "jsnum \<Rightarrow> bool" where
  "gt_zero (Num r) = (0 < r)"
| "gt_zero PosInf = True"
| "gt_zero NegInf = False"
| "gt_zero NaN = False"

text \<open>
  The arithmetic the aggregator performs: \<open>a += x\<close> and \<open>a / n\<close> with a finite \<open>x\<close> and a
  positive integer \<open>n\<close>, and the comparator's difference \<open>a - b\<close>.
\<close>

fun js_add :: "jsnum \<Rightarrow> rat \<Rightarrow> jsnum" where
  "js_add (Num a) x = Num (a + x)"
| "js_add PosInf x = PosInf"
| "js_add NegInf x = NegInf"
| "js_add NaN x = NaN"

fun js_div :: "jsnum \<Rightarrow> nat \<Rightarrow> jsnum" where
  "js_div (Num a) n = Num (a / of_nat n)"
| "js_div PosInf n = PosInf"
| "js_div NegInf n = NegInf"
| "js_div NaN n = NaN"

fun js_sub :: "jsnum \<Rightarrow> jsnum \<Rightarrow> jsnum" where
  "js_sub (Num a) (Num b) = Num (a - b)"
| "js_sub (Num a) PosInf = NegInf"
| "js_sub (Num a) NegInf = PosInf"
| "js_sub PosInf (Num b) = PosInf"
| "js_sub PosInf NegInf = PosInf"
| "js_sub NegInf (Num b) = NegInf"
| "js_sub NegInf PosInf = NegInf"
| "js_sub x y = NaN"

text \<open>A destructured option with a default: \<open>undefined\<close> is \<open>None\<close>.\<close>

definition with_default :: "'a \<Rightarrow> 'a option \<Rightarrow> 'a" where
  "with_default d v = (case v of None \<Rightarrow> d | Some x \<Rightarrow> x)"

text \<open>
  \<open>xs.slice(0, k)\<close> for an integer \<open>k\<close>: a negative end counts from the end of the array.
\<close>

definition slice0 :: "int \<Rightarrow> 'a list \<Rightarrow> 'a list" where
  "slice0 k xs = (if 0 \<le> k then take (nat k) xs else take (length xs - nat (- k)) xs)"

text \<open>\<open>xs[i]\<close>: \<open>undefined\<close> (\<open>None\<close>) out of range.\<close>

definition nth_opt :: "'a list \<Rightarrow> nat \<Rightarrow> 'a option" where
  "nth_opt xs i = (if i < length xs then Some (xs ! i) else None)"

text \<open>
  \<open>xs.sort(cmp)\<close>: a stable sort. An element moves behind another only when the comparator
  returns a positive number for the pair; a NaN result counts as zero. For a comparator that
  is a consistent order the result does not depend on the sorting algorithm; otherwise
  (NaN scores) ECMAScript leaves the order to the implementation, and this insertion sort is
  one admissible outcome.
\<close>

fun insert_by :: "('a \<Rightarrow> 'a \<Rightarrow> jsnum) \<Rightarrow> 'a \<Rightarrow> 'a list \<Rightarrow> 'a list" where
  "insert_by cmp x [] = [x]"
| "insert_by cmp x (y # ys) =
     (if gt_zero (cmp x y) then y # insert_by cmp x ys else x # y # ys)"

definition sort_by :: "('a \<Rightarrow> 'a \<Rightarrow> jsnum) \<Rightarrow> 'a list \<Rightarrow> 'a list" where
  "sort_by cmp xs = foldr (insert_by cmp) xs []"

text \<open>Strings: \<open>s.startsWith(p)\<close>, \<open>s.split(',')[1]\<close> and the base64 heuristic
  \<open>/^[A-Za-z0-9+/=]+$/.test(s) && s.length % 4 === 0\<close>.\<close>

definition startsWith :: "string \<Rightarrow> string \<Rightarrow> bool" where
  "startsWith s p = (take (length p) s = p)"

definition split_comma_1 :: "string \<Rightarrow> string option" where
  "split_comma_1 s =
     (case dropWhile (\<lambda>c. c \<noteq> CHR '','') s of
        [] \<Rightarrow> None
      | c # rest \<Rightarrow> Some (takeWhile (\<lambda>c. c \<noteq> CHR '','') rest))"

definition looksBase64 :: "string \<Rightarrow> bool" where
  "looksBase64 s =
     (s \<noteq> [] \<and>
      list_all (\<lambda>c. c \<in> set ''ABCDEFGHIJKLMNOPQRSTUVWXYZabcdefghijklmnopqrstuvwxyz0123456789+/='') s \<and>
      length s mod 4 = 0)"


section \<open>Errors\<close>

text \<open>
  Every \<open>throw\<close> of the repository is a constructor; \<open>TypeError\<close> is the runtime error of
  reading a property of \<open>undefined\<close>; \<open>Errno\<close> is a file-system error with its code;
  \<open>External\<close> is an error raised inside a collaborator (HTTP client, image codec,
  inference engine, FFmpeg).
\<close>

datatype error =
    ImageUrlsEmpty
  | VideoUrlsEmpty
  | ShapeUndefined
  | VideoUrlRequired
  | FramesNotPositive
  | InvalidImageUrl
  | InvalidBase64DataURI
  | DownloadFailed
  | LocalFileNotFound string
  | InvalidSource
  | InvalidDataURI
  | MediaExceedsMaxBytes nat int
  | DurationUnknown
  | TypeError
  | Errno string
  | External string

fun isOk :: "'e + 'a \<Rightarrow> bool" where
  "isOk (Inl e) = False"
| "isOk (Inr x) = True"

text \<open>A loop of awaited steps that stops at the first one that throws.\<close>

fun mapM :: "('a \<Rightarrow> 'e + 'b) \<Rightarrow> 'a list \<Rightarrow> 'e + 'b list" where
  "mapM f [] = Inr []"
| "mapM f (x # xs) =
     (case f x of
        Inl e \<Rightarrow> Inl e
      | Inr y \<Rightarrow> (case mapM f xs of Inl e \<Rightarrow> Inl e | Inr ys \<Rightarrow> Inr (y # ys)))"


section \<open>Frame sampler (utils/ffmpeg.js)\<close>

text \<open>
  \<open>sampleTimestamps(durationSec, count)\<close>: the loop
  \<open>for (let k = 0; k < count; k++) ts.push(((k + 0.5) / count) * durationSec)\<close>
  over finite arguments (the parameter \<open>count\<close> is written \<open>cnt\<close>). The guard
  \<open>!durationSec || durationSec <= 0 || !count || count <= 0\<close> returns the empty array; on a
  finite number \<open>!x\<close> holds exactly when \<open>x\<close> is zero.
\<close>

function sample_loop :: "rat \<Rightarrow> rat \<Rightarrow> nat \<Rightarrow> rat list \<Rightarrow> rat list" where
  "sample_loop durationSec cnt k ts =
     (if of_nat k < cnt
      then sample_loop durationSec cnt (Suc k)
             (ts @ [((of_nat k + 1 / 2) / cnt) * durationSec])
      else ts)"
  by pat_completeness auto
termination
proof (relation "measure (\<lambda>(d, c, k, ts). nat \<lceil>c\<rceil> - k)")
  show "wf (measure (\<lambda>(d, c, k, ts). nat \<lceil>c\<rceil> - k))"
    by simp
next
  fix durationSec cnt :: rat and k :: nat and ts :: "rat list"
  assume lt: "of_nat k < cnt"
  have "of_int (int k) < cnt"
    using lt by simp
  then have "int k < \<lceil>cnt\<rceil>"
    by (simp only: less_ceiling_iff)
  then have "k < nat \<lceil>cnt\<rceil>"
    by linarith
  then show "((durationSec, cnt, Suc k, ts @ [((of_nat k + 1 / 2) / cnt) * durationSec]),
              (durationSec, cnt, k, ts))
             \<in> measure (\<lambda>(d, c, k, ts). nat \<lceil>c\<rceil> - k)"
    by simp
qed

declare sample_loop.simps [simp del]

definition sampleTimestamps :: "rat \<Rightarrow> rat \<Rightarrow> rat list" where
  "sampleTimestamps durationSec cnt =
     (if durationSec = 0 \<or> durationSec \<le> 0 \<or> cnt = 0 \<or> cnt \<le> 0 then []
      else sample_loop durationSec cnt 0 [])"

text \<open>\<open>safeTimestamps(durationSec, timestamps, marginSec = 0.05)\<close>.\<close>

definition safeTimestamps :: "rat \<Rightarrow> rat list \<Rightarrow> rat option \<Rightarrow> rat list" where
  "safeTimestamps durationSec timestamps marginSec =
     (let maxT = max 0 (durationSec - max 0 (with_default (5 / 100) marginSec))
      in map (\<lambda>t. min (max 0 t) maxT) timestamps)"


section \<open>The unified entry point \<open>classify\<close>: routing\<close>

text \<open>
  The \<open>input\<close> option of \<open>classify\<close>: a single media reference, an array of references,
  or an object. An object is described by its \<open>images\<close> and \<open>videos\<close> properties, \<open>None\<close>
  when the property is absent or falsy (a Buffer is such an object: both are absent).
\<close>

datatype 'a classify_input =
    Scalar 'a
  | Array "'a list"
  | Object "'a list option" "'a list option"

text \<open>
  The handler \<open>classify\<close> delegates to. For the mixed form the two components are the
  arrays handed to \<open>classifyImages\<close> and \<open>classifyVideos\<close>, \<open>None\<close> where the task is
  \<open>Promise.resolve(null)\<close>.
\<close>

datatype 'a route =
    RouteMixed "'a list option" "'a list option"
  | RouteVideos "'a classify_input"
  | RouteImages "'a classify_input"

text \<open>
  \<open>input && typeof input === 'object' && !Array.isArray(input) && (input.images || input.videos)\<close>
\<close>

fun is_mixed_form :: "'a classify_input \<Rightarrow> bool" where
  "is_mixed_form (Scalar x) = False"
| "is_mixed_form (Array xs) = False"
| "is_mixed_form (Object images videos) = (images \<noteq> None \<or> videos \<noteq> None)"

text \<open>\<open>input.images && input.images.length\<close>: the property is a non-empty array.\<close>

definition nonempty_part :: "'a list option \<Rightarrow> 'a list option" where
  "nonempty_part p = (case p of None \<Rightarrow> None | Some xs \<Rightarrow> if xs = [] then None else Some xs)"

definition isVideo :: "string \<Rightarrow> jsnum \<Rightarrow> bool" where
  "isVideo mediaType frames =
     (mediaType = ''video'' \<or> (isFinite frames \<and> gt_zero frames \<and> mediaType \<noteq> ''image''))"

text \<open>
  \<open>classify({ input, mediaType = 'auto', frames = 10, ... })\<close>: the options \<open>mediaType\<close> and
  \<open>frames\<close> are \<open>None\<close> when the caller leaves them undefined. The result is the handler
  the call is delegated to.
\<close>

definition classify :: "'a classify_input \<Rightarrow> string option \<Rightarrow> jsnum option \<Rightarrow> 'a route" where
  "classify input mediaType_opt frames_opt =
     (let mediaType = with_default ''auto'' mediaType_opt;
          frames = with_default (Num 10) frames_opt
      in case input of
           Object images videos \<Rightarrow>
             if is_mixed_form input
             then RouteMixed (nonempty_part images) (nonempty_part videos)
             else if isVideo mediaType frames then RouteVideos input else RouteImages input
         | _ \<Rightarrow> if isVideo mediaType frames then RouteVideos input else RouteImages input)"


section \<open>Bounded worker pool\<close>

text \<open>
  The repository has three pools of one shape (video batch in \<open>classifyVideo\<close>, frame
  extraction in \<open>extractFrames\<close>, frame preprocessing in turbo mode):
  \<^verbatim>\<open>
  const queue = jobs.slice();
  const runners = new Array(Math.max(1, Math.min(concurrency, queue.length))).fill(0)
    .map(async function run() {
      while (queue.length) {
        const idx = jobs.length - queue.length;
        const job = queue.shift();
        if (!job) break;
        results[idx] = await job();      // video batch: out.push(await job())
      }
    });
  await Promise.all(runners);
  \<close>
  A job is given by the outcome of awaiting it. Each runner executes up to its first
  \<open>await\<close> when it is created; afterwards the awaited jobs settle in an order the program
  does not control, given here by a schedule: the list of runner numbers in the order their
  awaited jobs settle. The concurrency is an integer.
\<close>

definition effective_concurrency :: "int \<Rightarrow> nat \<Rightarrow> nat" where
  "effective_concurrency concurrency n = nat (max 1 (min concurrency (int n)))"

record ('r, 's) pool =
  queue :: "(error + 'r) list"
  runners :: "(nat \<times> (error + 'r)) option list"
  store :: 's
  rejected :: "error option"

text \<open>
  The head of the \<open>while\<close> loop of runner \<open>r\<close>: with an empty queue the runner ends,
  otherwise it computes \<open>idx\<close>, shifts the job and awaits it.
\<close>

definition runner_loop :: "nat \<Rightarrow> nat \<Rightarrow> ('r, 's) pool \<Rightarrow> ('r, 's) pool" where
  "runner_loop njobs r p =
     (case queue p of
        [] \<Rightarrow> p\<lparr>runners := (runners p)[r := None]\<rparr>
      | job # rest \<Rightarrow>
          p\<lparr>queue := rest, runners := (runners p)[r := Some (njobs - length (queue p), job)]\<rparr>)"

text \<open>
  The job awaited by runner \<open>r\<close> settles: a rejection ends the runner and rejects
  \<open>Promise.all\<close> (the first rejection wins); a value is recorded and the loop continues.
\<close>

definition settle ::
  "(nat \<Rightarrow> 'r \<Rightarrow> 's \<Rightarrow> 's) \<Rightarrow> nat \<Rightarrow> nat \<Rightarrow> ('r, 's) pool \<Rightarrow> ('r, 's) pool" where
  "settle record_result njobs r p =
     (if r < length (runners p) then
        (case runners p ! r of
           None \<Rightarrow> p
         | Some (idx, Inl e) \<Rightarrow>
             p\<lparr>runners := (runners p)[r := None],
               rejected := (case rejected p of None \<Rightarrow> Some e | Some e' \<Rightarrow> Some e')\<rparr>
         | Some (idx, Inr v) \<Rightarrow> runner_loop njobs r (p\<lparr>store := record_result idx v (store p)\<rparr>))
      else p)"

text \<open>
  The pool before any runner has run: \<open>queue = jobs.slice()\<close>, \<open>c\<close> runners, an
  initial store. Then the runners are created in order, each running to its first \<open>await\<close>.
\<close>

definition pool_init :: "(error + 'r) list \<Rightarrow> nat \<Rightarrow> 's \<Rightarrow> ('r, 's) pool" where
  "pool_init jobs c s0 = \<lparr>queue = jobs, runners = replicate c None, store = s0, rejected = None\<rparr>"

definition pool_start :: "(error + 'r) list \<Rightarrow> int \<Rightarrow> 's \<Rightarrow> ('r, 's) pool" where
  "pool_start jobs concurrency s0 =
     (let c = effective_concurrency concurrency (length jobs)
      in fold (runner_loop (length jobs)) [0..<c] (pool_init jobs c s0))"

definition pool_run ::
  "(nat \<Rightarrow> 'r \<Rightarrow> 's \<Rightarrow> 's) \<Rightarrow> (error + 'r) list \<Rightarrow> int \<Rightarrow> 's \<Rightarrow> nat list \<Rightarrow> ('r, 's) pool" where
  "pool_run record_result jobs concurrency s0 schedule =
     fold (settle record_result (length jobs)) schedule (pool_start jobs concurrency s0)"

text \<open>
  What \<open>await Promise.all(runners)\<close> yields: the first rejection, or the store once every
  runner has ended; \<open>None\<close> while jobs are still pending (the schedule is too short).
\<close>

definition pool_outcome :: "('r, 's) pool \<Rightarrow> (error + 's) option" where
  "pool_outcome p =
     (case rejected p of
        Some e \<Rightarrow> Some (Inl e)
      | None \<Rightarrow> if list_all (\<lambda>r. r = None) (runners p) then Some (Inr (store p)) else None)"

text \<open>The video batch pool: \<open>out.push(await job())\<close>.\<close>

definition videoBatch_pool :: "(error + 'r) list \<Rightarrow> int \<Rightarrow> nat list \<Rightarrow> (error + 'r list) option" where
  "videoBatch_pool tasks maxConcurrent schedule =
     pool_outcome (pool_run (\<lambda>idx v out. out @ [v]) tasks maxConcurrent [] schedule)"

text \<open>
  The pools of \<open>extractFrames\<close> and of turbo preprocessing:
  \<open>results = new Array(jobs.length)\<close> and \<open>results[idx] = await job()\<close>.
\<close>

definition indexed_pool ::
  "(error + 'r) list \<Rightarrow> int \<Rightarrow> nat list \<Rightarrow> (error + 'r option list) option" where
  "indexed_pool jobs concurrency schedule =
     pool_outcome (pool_run (\<lambda>idx v results. results[idx := Some v]) jobs concurrency
        (replicate (length jobs) None) schedule)"


section \<open>Media references and external collaborators\<close>

type_synonym bytes = "nat list"

text \<open>
  A media reference as the entry points receive it: a Buffer or Uint8Array, a string,
  \<open>undefined\<close>/\<open>null\<close> (\<open>Missing\<close>), or any other value (\<open>NotMedia\<close>) with its
  truthiness: \<open>NotMedia False\<close> is \<open>0\<close>, \<open>NaN\<close> or \<open>false\<close>, \<open>NotMedia True\<close> a
  non-zero number, \<open>true\<close> or an object that holds no bytes.
\<close>

datatype media = Buffer bytes | Text string | Missing | NotMedia bool

text \<open>
  A file path: one the caller supplied, or \<open>path.join(dir, 'input')\<close> for the temporary
  directory number \<open>dir\<close>.
\<close>

datatype fpath = UserPath string | TempInput nat

text \<open>
  Everything the orchestrator calls outside the repository's own logic, as functions of
  their arguments: the HTTP client, \<open>fs.readFile\<close>, \<open>Buffer.from(s, 'base64')\<close>, the image
  codec (in a worker thread and in process), the loaded model (its input shape, its label
  list, \<open>predict\<close> on the stacked and normalised tensors read back as rows, \<open>tf.topk\<close> with
  its values and indices), \<open>ensureFFmpeg\<close>, the duration probes, \<open>os.cpus().length\<close>, and
  the two frame extractors with the frames they deliver. Timings and the backend name are
  not modelled.
\<close>

record env =
  http_get :: "string \<Rightarrow> error + bytes"
  read_file :: "string \<Rightarrow> error + bytes"
  base64_decode :: "string \<Rightarrow> bytes"
  useWorkers :: bool
  worker_resize :: "bytes \<Rightarrow> nat \<Rightarrow> nat \<Rightarrow> bool \<Rightarrow> error + bytes"
  sharp_resize :: "bytes \<Rightarrow> nat \<Rightarrow> nat \<Rightarrow> bool \<Rightarrow> error + bytes"
  input_shape :: "(nat \<times> nat) option"
  classes :: "string list"
  predict :: "bytes list \<Rightarrow> error + rat list list"
  topk :: "rat list list \<Rightarrow> int \<Rightarrow> error + (rat list list \<times> nat list list)"
  ffmpeg_path :: "error + string"
  probe_buffer :: "bytes \<Rightarrow> rat option"
  probe_path :: "fpath \<Rightarrow> rat option"
  cpuCount :: nat
  extract_auto :: "bytes \<Rightarrow> int \<Rightarrow> rat \<Rightarrow> error + bytes list"
  extract_frames :: "fpath \<Rightarrow> rat list \<Rightarrow> int \<Rightarrow> error + bytes list"

text \<open>\<open>getImageBuffer\<close> (preprocess.js).\<close>

definition getImageBuffer :: "env \<Rightarrow> media \<Rightarrow> error + bytes" where
  "getImageBuffer env imageUrl =
     (case imageUrl of
        Buffer b \<Rightarrow> Inr b
      | Missing \<Rightarrow> Inl InvalidImageUrl
      | NotMedia truthy \<Rightarrow> Inl InvalidImageUrl
      | Text s \<Rightarrow>
          if s = [] then Inl InvalidImageUrl
          else if startsWith s ''data:image/'' then
            (case split_comma_1 s of
               None \<Rightarrow> Inl InvalidBase64DataURI
             | Some base64Data \<Rightarrow>
                 if base64Data = [] then Inl InvalidBase64DataURI
                 else Inr (base64_decode env base64Data))
          else if startsWith s ''http'' then
            (case http_get env s of
               Inl e \<Rightarrow> Inl DownloadFailed
             | Inr b \<Rightarrow> Inr b)
          else
            (case read_file env s of
               Inr b \<Rightarrow> Inr b
             | Inl e \<Rightarrow>
                 if looksBase64 s then Inr (base64_decode env s)
                 else if e = Errno ''ENOENT'' then Inl (LocalFileNotFound s)
                 else Inl e))"

text \<open>\<open>toSizedRGBTensor\<close> (preprocess.js): the worker first when enabled, the in-process
  codec when the worker fails.\<close>

definition toSizedRGBTensor :: "env \<Rightarrow> bytes \<Rightarrow> nat \<Rightarrow> nat \<Rightarrow> bool \<Rightarrow> error + bytes" where
  "toSizedRGBTensor env imageBuffer targetW targetH centerCrop =
     (if useWorkers env then
        (case worker_resize env imageBuffer targetW targetH centerCrop of
           Inr d \<Rightarrow> Inr d
         | Inl e \<Rightarrow> sharp_resize env imageBuffer targetW targetH centerCrop)
      else sharp_resize env imageBuffer targetW targetH centerCrop)"


section \<open>Image batch classification (\<open>classifyBatch\<close>)\<close>

text \<open>
  A prediction \<open>{ class, score, rank }\<close>: the label is \<open>undefined\<close> when the class index
  is outside the label list, the score is \<open>undefined\<close> when the value row is too short.
\<close>

record pred =
  cls :: "string option"
  score :: "jsnum option"
  rank :: nat

record image_result =
  imageUrl :: media
  err :: "error option"
  classesCount :: nat
  predictions :: "pred list option"

record batch_result =
  batch_count :: nat
  batch_classesCount :: nat
  results :: "image_result list"

text \<open>\<open>Math.min(topK ?? classes.length, classes.length)\<close>\<close>

definition top_k :: "env \<Rightarrow> int option \<Rightarrow> int" where
  "top_k env topK = min (with_default (int (length (classes env))) topK) (int (length (classes env)))"

text \<open>
  \<open>inds[row].map((clsIdx, j) => ({ class: classes[clsIdx], score: vals[row][j], rank: j + 1 }))\<close>
\<close>

definition row_predictions :: "env \<Rightarrow> rat list list \<Rightarrow> nat list list \<Rightarrow> nat \<Rightarrow> error + pred list" where
  "row_predictions env vals inds row =
     (case nth_opt inds row of
        None \<Rightarrow> Inl TypeError
      | Some ind_row \<Rightarrow>
          mapM (\<lambda>(j, clsIdx).
                  case nth_opt vals row of
                    None \<Rightarrow> Inl TypeError
                  | Some val_row \<Rightarrow>
                      Inr \<lparr>cls = nth_opt (classes env) clsIdx,
                           score = map_option Num (nth_opt val_row j),
                           rank = j + 1\<rparr>)
               (enumerate 0 ind_row))"

text \<open>
  The part of \<open>processChunk\<close> after the downloads: resize every acquired buffer, one
  \<open>predict\<close> on the stack, one \<open>topk\<close>, and the predictions of each row.
\<close>

definition infer_buffers ::
  "env \<Rightarrow> nat \<Rightarrow> nat \<Rightarrow> int option \<Rightarrow> bool \<Rightarrow> bytes list \<Rightarrow> error + pred list list" where
  "infer_buffers env targetW targetH topK centerCrop buffers =
     (case mapM (\<lambda>buf. toSizedRGBTensor env buf targetW targetH centerCrop) buffers of
        Inl e \<Rightarrow> Inl e
      | Inr tensors \<Rightarrow>
          (case predict env tensors of
             Inl e \<Rightarrow> Inl e
           | Inr logits \<Rightarrow>
               (case topk env logits (top_k env topK) of
                  Inl e \<Rightarrow> Inl e
                | Inr (vals, inds) \<Rightarrow>
                    mapM (row_predictions env vals inds) [0..<length buffers])))"

text \<open>
  \<open>processChunk(urls)\<close>, with the \<open>results\<close> array of the enclosing call passed in and
  returned. \<open>dlResults\<close> holds the outcome of each download (\<open>Promise.all\<close> keeps the
  order); \<open>okPairs\<close> and \<open>failPairs\<close> pair each outcome with its index; the entries of
  the failures are pushed first, those of the successes after the inference.
\<close>

definition processChunk ::
  "env \<Rightarrow> nat \<Rightarrow> nat \<Rightarrow> int option \<Rightarrow> bool \<Rightarrow> media list \<Rightarrow> image_result list
     \<Rightarrow> error + image_result list" where
  "processChunk env targetW targetH topK centerCrop urls results0 =
     (let dlResults = map (getImageBuffer env) urls;
          okPairs = filter (\<lambda>(idx, r). isOk r) (enumerate 0 dlResults);
          failPairs = filter (\<lambda>(idx, r). \<not> isOk r) (enumerate 0 dlResults);
          results1 = results0 @
            map (\<lambda>(idx, r). \<lparr>imageUrl = urls ! idx,
                               err = (case r of Inl e \<Rightarrow> Some e | Inr b \<Rightarrow> None),
                               classesCount = length (classes env),
                               predictions = None\<rparr>) failPairs;
          buffers = concat (map (\<lambda>(idx, r). case r of Inl e \<Rightarrow> [] | Inr buf \<Rightarrow> [buf]) okPairs)
      in case infer_buffers env targetW targetH topK centerCrop buffers of
           Inl e \<Rightarrow> Inl e
         | Inr preds \<Rightarrow>
             Inr (results1 @
                  map (\<lambda>((okIdx, r), p). \<lparr>imageUrl = urls ! okIdx,
                                           err = None,
                                           classesCount = length (classes env),
                                           predictions = Some p\<rparr>)
                      (zip okPairs preds)))"

text \<open>
  The chunks of \<open>for (let i = 0; i < imageUrls.length; i += batchSize)
  imageUrls.slice(i, i + batchSize)\<close>, for an integer batch size.
\<close>

function slices :: "nat \<Rightarrow> 'a list \<Rightarrow> nat \<Rightarrow> 'a list list" where
  "slices batchSize xs i =
     (if 0 < batchSize \<and> i < length xs
      then take batchSize (drop i xs) # slices batchSize xs (i + batchSize)
      else [])"
  by pat_completeness auto
termination
  by (relation "measure (\<lambda>(b, xs, i). length xs - i)") auto

declare slices.simps [simp del]

text \<open>\<open>batchSize && batchSize > 0 && batchSize < imageUrls.length\<close> selects chunking.\<close>

definition batch_chunks :: "int option \<Rightarrow> 'a list \<Rightarrow> 'a list list" where
  "batch_chunks batchSize imageUrls =
     (case batchSize of
        None \<Rightarrow> [imageUrls]
      | Some b \<Rightarrow>
          if b \<noteq> 0 \<and> 0 < b \<and> b < int (length imageUrls) then slices (nat b) imageUrls 0
          else [imageUrls])"

text \<open>The chunks are processed one after the other; a chunk that throws ends the call.\<close>

fun run_chunks ::
  "('a list \<Rightarrow> 'r list \<Rightarrow> error + 'r list) \<Rightarrow> 'a list list \<Rightarrow> 'r list \<Rightarrow> error + 'r list" where
  "run_chunks f [] results0 = Inr results0"
| "run_chunks f (chunk # rest) results0 =
     (case f chunk results0 of Inl e \<Rightarrow> Inl e | Inr results1 \<Rightarrow> run_chunks f rest results1)"

definition classifyBatch ::
  "env \<Rightarrow> media list \<Rightarrow> int option \<Rightarrow> bool \<Rightarrow> int option \<Rightarrow> error + batch_result" where
  "classifyBatch env imageUrls topK centerCrop batchSize =
     (if imageUrls = [] then Inl ImageUrlsEmpty
      else case input_shape env of
             None \<Rightarrow> Inl ShapeUndefined
           | Some (targetH, targetW) \<Rightarrow>
               (case run_chunks (processChunk env targetW targetH topK centerCrop)
                       (batch_chunks batchSize imageUrls) [] of
                  Inl e \<Rightarrow> Inl e
                | Inr rs \<Rightarrow>
                    Inr \<lparr>batch_count = length imageUrls,
                         batch_classesCount = length (classes env),
                         results = rs\<rparr>))"


section \<open>Single image classification\<close>

text \<open>
  \<open>getTopKClasses(logits, classes, topK)\<close>: \<open>tf.topk\<close> with
  \<open>k = Math.min(topK ?? classes.length, classes.length)\<close>, the values and indices read
  back flat, and \<open>Array.from(i).map((idx, j) => ({ class: classes[idx], score: v[j] }))\<close>.
\<close>

definition getTopKClasses ::
  "env \<Rightarrow> rat list list \<Rightarrow> int option \<Rightarrow> error + (string option \<times> jsnum option) list" where
  "getTopKClasses env logits topK =
     (case topk env logits (top_k env topK) of
        Inl e \<Rightarrow> Inl e
      | Inr (vals, inds) \<Rightarrow>
          Inr (map (\<lambda>(j, idx). (nth_opt (classes env) idx, map_option Num (nth_opt (concat vals) j)))
                   (enumerate 0 (concat inds))))"

text \<open>
  \<open>_decodeAndPredict\<close>: the shape check, one resize, one \<open>predict\<close>, the top classes
  with \<open>rank: idx + 1\<close>.
\<close>

definition decodeAndPredict :: "env \<Rightarrow> bytes \<Rightarrow> int option \<Rightarrow> bool \<Rightarrow> error + pred list" where
  "decodeAndPredict env imageBuffer topK centerCrop =
     (case input_shape env of
        None \<Rightarrow> Inl ShapeUndefined
      | Some (targetH, targetW) \<Rightarrow>
          (case toSizedRGBTensor env imageBuffer targetW targetH centerCrop of
             Inl e \<Rightarrow> Inl e
           | Inr sized \<Rightarrow>
               (case predict env [sized] of
                  Inl e \<Rightarrow> Inl e
                | Inr logits \<Rightarrow>
                    (case getTopKClasses env logits topK of
                       Inl e \<Rightarrow> Inl e
                     | Inr ranked_top \<Rightarrow>
                         Inr (map (\<lambda>(idx, (c, s)). \<lparr>cls = c, score = s, rank = idx + 1\<rparr>)
                                  (enumerate 0 ranked_top))))))"

text \<open>\<open>_classifyImage\<close>: acquisition, then \<open>_decodeAndPredict\<close>.\<close>

definition classifyImage :: "env \<Rightarrow> media \<Rightarrow> int option \<Rightarrow> bool \<Rightarrow> error + image_result" where
  "classifyImage env url topK centerCrop =
     (case getImageBuffer env url of
        Inl e \<Rightarrow> Inl e
      | Inr imageBuffer \<Rightarrow>
          (case decodeAndPredict env imageBuffer topK centerCrop of
             Inl e \<Rightarrow> Inl e
           | Inr preds \<Rightarrow>
               Inr \<lparr>imageUrl = url, err = None, classesCount = length (classes env),
                    predictions = Some preds\<rparr>))"


section \<open>Temporary files and media acquisition (utils/ffmpeg.js)\<close>

text \<open>
  The part of the file system the acquisition code touches: the temporary directories that
  exist, the \<open>input\<close> file written into each, the counter behind fresh \<open>mkdtemp\<close> names,
  and what makes an operation fail: no space (for \<open>mkdtemp\<close> and for \<open>writeFile\<close>) and
  directories that cannot be removed.
\<close>

record fs =
  tmp_dirs :: "nat list"
  tmp_files :: "(nat \<times> bytes) list"
  next_dir :: nat
  mkdtemp_fails :: bool
  write_fails :: bool
  locked :: "nat list"

definition fs_mkdtemp :: "fs \<Rightarrow> (error + nat) \<times> fs" where
  "fs_mkdtemp w =
     (if mkdtemp_fails w then (Inl (Errno ''ENOSPC''), w)
      else (Inr (next_dir w),
            w\<lparr>tmp_dirs := next_dir w # tmp_dirs w, next_dir := Suc (next_dir w)\<rparr>))"

definition fs_writeFile :: "nat \<Rightarrow> bytes \<Rightarrow> fs \<Rightarrow> (error + unit) \<times> fs" where
  "fs_writeFile d buffer w =
     (if d \<in> set (tmp_dirs w) then
        (if write_fails w then (Inl (Errno ''ENOSPC''), w)
         else (Inr (), w\<lparr>tmp_files := (d, buffer) # tmp_files w\<rparr>))
      else (Inl (Errno ''ENOENT''), w))"

text \<open>
  \<open>fs.rm(dir, { recursive: true, force })\<close>: with \<open>force\<close>, a path that does not exist is
  not an error.
\<close>

definition fs_rm :: "bool \<Rightarrow> nat \<Rightarrow> fs \<Rightarrow> (error + unit) \<times> fs" where
  "fs_rm force d w =
     (if d \<in> set (tmp_dirs w) then
        (if d \<in> set (locked w) then (Inl (Errno ''EBUSY''), w)
         else (Inr (), w\<lparr>tmp_dirs := removeAll d (tmp_dirs w),
                          tmp_files := filter (\<lambda>(d', b). d' \<noteq> d) (tmp_files w)\<rparr>))
      else if force then (Inr (), w)
      else (Inl (Errno ''ENOENT''), w))"

text \<open>\<open>(await fs.stat(path).catch(() => null))?.size\<close>\<close>

definition fs_stat_size :: "env \<Rightarrow> fpath \<Rightarrow> fs \<Rightarrow> nat option" where
  "fs_stat_size env p w =
     (case p of
        TempInput d \<Rightarrow> map_option length (map_of (tmp_files w) d)
      | UserPath s \<Rightarrow> (case read_file env s of Inl e \<Rightarrow> None | Inr b \<Rightarrow> Some (length b)))"

text \<open>
  What \<open>ensureLocalPathWithCleanup\<close> returns: the path and the cleanup closure. The closure
  is either \<open>async () => { if (dir) await fs.rm(dir, { recursive: true, force: true }); }\<close>
  with the directory it captured (\<open>Some dir\<close>), or \<open>async () => {}\<close> (\<open>None\<close>).
\<close>

record loc =
  loc_path :: fpath
  loc_cleanup :: "nat option"

definition run_cleanup :: "nat option \<Rightarrow> fs \<Rightarrow> (error + unit) \<times> fs" where
  "run_cleanup cleanup w =
     (case cleanup of
        None \<Rightarrow> (Inr (), w)
      | Some dir \<Rightarrow> fs_rm True dir w)"

definition writeTemp :: "bytes \<Rightarrow> fs \<Rightarrow> (error + loc) \<times> fs" where
  "writeTemp buffer w =
     (case fs_mkdtemp w of
        (Inl e, w1) \<Rightarrow> (Inl e, w1)
      | (Inr dir, w1) \<Rightarrow>
          (case fs_writeFile dir buffer w1 of
             (Inl e, w2) \<Rightarrow> (Inl e, w2)
           | (Inr u, w2) \<Rightarrow> (Inr \<lparr>loc_path = TempInput dir, loc_cleanup = Some dir\<rparr>, w2)))"

definition ensureLocalPathWithCleanup :: "env \<Rightarrow> media \<Rightarrow> fs \<Rightarrow> (error + loc) \<times> fs" where
  "ensureLocalPathWithCleanup env src w =
     (case src of
        Buffer buf \<Rightarrow> writeTemp buf w
      | Missing \<Rightarrow> (Inl InvalidSource, w)
      | NotMedia truthy \<Rightarrow> (Inl InvalidSource, w)
      | Text s \<Rightarrow>
          if s = [] then (Inl InvalidSource, w)
          else if startsWith s ''http'' then
            (case http_get env s of
               Inl e \<Rightarrow> (Inl e, w)
             | Inr buf \<Rightarrow> writeTemp buf w)
          else if startsWith s ''data:'' then
            (case split_comma_1 s of
               None \<Rightarrow> (Inl InvalidDataURI, w)
             | Some base64 \<Rightarrow>
                 if base64 = [] then (Inl InvalidDataURI, w)
                 else writeTemp (base64_decode env base64) w)
          else if looksBase64 s then
            (case writeTemp (base64_decode env s) w of
               (Inr l, w1) \<Rightarrow> (Inr l, w1)
             | (Inl e, w1) \<Rightarrow> (Inr \<lparr>loc_path = UserPath s, loc_cleanup = None\<rparr>, w1))
          else (Inr \<lparr>loc_path = UserPath s, loc_cleanup = None\<rparr>, w))"

definition getMediaBuffer :: "env \<Rightarrow> media \<Rightarrow> error + bytes" where
  "getMediaBuffer env src =
     (case src of
        Buffer buf \<Rightarrow> Inr buf
      | Missing \<Rightarrow> Inl InvalidSource
      | NotMedia truthy \<Rightarrow> Inl InvalidSource
      | Text s \<Rightarrow>
          if s = [] then Inl InvalidSource
          else if startsWith s ''http'' then http_get env s
          else if startsWith s ''data:'' then
            (case split_comma_1 s of
               None \<Rightarrow> Inl InvalidDataURI
             | Some base64 \<Rightarrow>
                 if base64 = [] then Inl InvalidDataURI else Inr (base64_decode env base64))
          else if looksBase64 s then Inr (base64_decode env s)
          else read_file env s)"


section \<open>Video classification (\<open>classifyVideo\<close>)\<close>

datatype io_mode = Ram | Disk

text \<open>
  The calls the orchestrator makes to acquisition, probing, extraction and cleanup, in
  order. \<open>EvCleanup c ok\<close> is an invocation of the local \<open>cleanup\<close> of \<open>classifyVideo\<close>:
  \<open>c\<close> is the closure the local holds at that moment (the directory it captured, as in
  \<open>loc_cleanup\<close>) and \<open>ok\<close> whether the invocation completed without throwing.
  \<open>EvLocCleanup c ok\<close> is \<open>loc.cleanup()\<close> of the disk fallback, likewise.
\<close>

datatype event =
    EvGetMediaBuffer
  | EvEnsureLocalPath
  | EvProbeDuration
  | EvExtractAuto
  | EvExtractFrames fpath
  | EvCleanup "nat option" bool
  | EvLocCleanup "nat option" bool

text \<open>
  The state a single call threads: the temporary directories, the trace of calls, and the
  two locals the \<open>finally\<close> block reads, \<open>cleanup\<close> (as the directory its closure
  captured) and \<open>tempCleaned\<close>.
\<close>

record vstate =
  world :: fs
  calls :: "event list"
  cleanup_var :: "nat option"
  tempCleaned :: bool

definition logged :: "event \<Rightarrow> vstate \<Rightarrow> vstate" where
  "logged e s = s\<lparr>calls := calls s @ [e]\<rparr>"

text \<open>The options of \<open>classifyVideo\<close>; \<open>None\<close> is \<open>undefined\<close>.\<close>

record video_opts =
  opt_frames :: "jsnum option"
  opt_topK :: "int option"
  opt_centerCrop :: bool
  opt_turboMode :: bool
  opt_extractionConcurrency :: "int option"
  opt_preprocessConcurrency :: "int option"
  opt_maxBytes :: "int option"

text \<open>What the acquisition and extraction steps hand to the frame loop.\<close>

record extraction =
  ex_frameBuffers :: "bytes list"
  ex_stamps :: "rat list"
  ex_usedMode :: io_mode
  ex_fallbackToDisk :: bool
  ex_sizeBytes :: nat

record io_info =
  io_mode_used :: io_mode
  io_fallbackToDisk :: bool
  io_tempCleaned :: bool
  io_sizeBytes :: nat
  io_maxBytes :: int

record frame_prediction =
  frameIndex :: nat
  timestampSec :: "rat option"
  frame_predictions :: "pred list"

record video_result =
  v_videoUrl :: media
  v_frames :: int
  v_turboMode :: bool
  v_classesCount :: nat
  v_io :: io_info
  v_results :: "frame_prediction list"
  v_aggregate :: "pred list"

text \<open>
  \<open>for (let c = 0; c < row.length; c++) aggregateScores[c] += row[c]\<close>: a column beyond
  the array reads \<open>undefined\<close>, the sum is NaN and the array grows.
\<close>

fun add_scores :: "jsnum list \<Rightarrow> rat list \<Rightarrow> jsnum list" where
  "add_scores agg [] = agg"
| "add_scores [] (x # xs) = NaN # add_scores [] xs"
| "add_scores (a # agg) (x # xs) = js_add a x # add_scores agg xs"

text \<open>\<open>idxs.map((ci, j) => ({ class: classes[ci], score: ..., rank: j + 1 }))\<close>\<close>

definition ranked :: "env \<Rightarrow> (nat \<Rightarrow> jsnum) \<Rightarrow> nat list \<Rightarrow> pred list" where
  "ranked env score_of idxs =
     map (\<lambda>(j, ci). \<lparr>cls = nth_opt (classes env) ci, score = Some (score_of ci), rank = j + 1\<rparr>)
         (enumerate 0 idxs)"

text \<open>
  \<open>scores.map((s, ci) => ci).sort((a, b) => scores[b] - scores[a]).slice(0, k)\<close> and the
  predictions of one frame.
\<close>

definition frame_preds :: "env \<Rightarrow> int \<Rightarrow> rat list \<Rightarrow> pred list" where
  "frame_preds env k scores =
     (let idxs = slice0 k (sort_by (\<lambda>a b. Num (scores ! b - scores ! a)) [0..<length scores])
      in ranked env (\<lambda>ci. Num (scores ! ci)) idxs)"

definition frame_result :: "env \<Rightarrow> int \<Rightarrow> rat list \<Rightarrow> nat \<Rightarrow> rat list \<Rightarrow> frame_prediction" where
  "frame_result env k stamps i scores =
     \<lparr>frameIndex = i, timestampSec = nth_opt stamps i, frame_predictions = frame_preds env k scores\<rparr>"

text \<open>
  \<open>avg = aggregateScores.map(s => s / Math.max(1, frameCount))\<close>, the order of the classes
  by descending average, and the first \<open>k\<close> of them.
\<close>

definition overall_preds :: "env \<Rightarrow> int \<Rightarrow> nat \<Rightarrow> jsnum list \<Rightarrow> pred list" where
  "overall_preds env k frameCount aggregateScores =
     (let avg = map (\<lambda>x. js_div x (max 1 frameCount)) aggregateScores;
          order = sort_by (\<lambda>a b. js_sub (avg ! b) (avg ! a)) [0..<length avg]
      in slice0 k (ranked env (\<lambda>ci. avg ! ci) order))"

text \<open>\<open>if (maxBytes && sizeBytes > maxBytes) throw new Error(...)\<close>\<close>

definition size_check :: "int \<Rightarrow> nat \<Rightarrow> error + unit" where
  "size_check maxBytes sizeBytes =
     (if maxBytes \<noteq> 0 \<and> maxBytes < int sizeBytes
      then Inl (MediaExceedsMaxBytes sizeBytes maxBytes) else Inr ())"

text \<open>The \<open>'ram'\<close> branch of the acquisition: buffer, size check, duration probe.\<close>

definition acquire_ram ::
  "env \<Rightarrow> media \<Rightarrow> int \<Rightarrow> vstate \<Rightarrow> (error + (rat option \<times> bytes \<times> nat)) \<times> vstate" where
  "acquire_ram env videoUrl maxBytes s =
     (let s1 = logged EvGetMediaBuffer s
      in case getMediaBuffer env videoUrl of
           Inl e \<Rightarrow> (Inl e, s1)
         | Inr mediaBuf \<Rightarrow>
             (case size_check maxBytes (length mediaBuf) of
                Inl e \<Rightarrow> (Inl e, s1)
              | Inr u \<Rightarrow>
                  (Inr (probe_buffer env mediaBuf, mediaBuf, length mediaBuf),
                   logged EvProbeDuration s1)))"

text \<open>
  The disk branch: the local path and its cleanup, then
  \<open>try { ...; sizeBytes = st?.size ?? 0; if (maxBytes && sizeBytes > maxBytes) throw ... } catch {}\<close>
  and the duration probe. What the size check throws is caught by the empty \<open>catch\<close>: both
  of its outcomes continue with the probe.
\<close>

definition acquire_disk ::
  "env \<Rightarrow> media \<Rightarrow> int \<Rightarrow> vstate \<Rightarrow> (error + (rat option \<times> fpath \<times> nat)) \<times> vstate" where
  "acquire_disk env videoUrl maxBytes s =
     (let s1 = logged EvEnsureLocalPath s
      in case ensureLocalPathWithCleanup env videoUrl (world s1) of
           (Inl e, w) \<Rightarrow> (Inl e, s1\<lparr>world := w\<rparr>)
         | (Inr l, w) \<Rightarrow>
             (let s2 = s1\<lparr>world := w, cleanup_var := loc_cleanup l\<rparr>;
                  sizeBytes = (case fs_stat_size env (loc_path l) w of None \<Rightarrow> 0 | Some n \<Rightarrow> n);
                  continue = (Inr (probe_path env (loc_path l), loc_path l, sizeBytes),
                              logged EvProbeDuration s2)
              in case size_check maxBytes sizeBytes of
                   Inl e \<Rightarrow> continue
                 | Inr u \<Rightarrow> continue))"

text \<open>
  \<open>if (!durationSec || durationSec <= 0) throw ...\<close>, then the sampled and clamped
  timestamps for \<open>Math.floor(frames)\<close> frames.
\<close>

definition sample_stamps :: "rat option \<Rightarrow> rat \<Rightarrow> error + (rat \<times> rat list)" where
  "sample_stamps durationSec frames =
     (case durationSec of
        None \<Rightarrow> Inl DurationUnknown
      | Some d \<Rightarrow>
          if d = 0 \<or> d \<le> 0 then Inl DurationUnknown
          else Inr (d, safeTimestamps d (sampleTimestamps d (of_int \<lfloor>frames\<rfloor>)) None))"

text \<open>
  \<open>Math.max(1, Math.min(16, extractionConcurrency ?? (turboMode ? Math.min(8, cpuCount) : 1)))\<close>
\<close>

definition extractConc :: "env \<Rightarrow> bool \<Rightarrow> int option \<Rightarrow> int" where
  "extractConc env turboMode extractionConcurrency =
     max 1 (min 16 (with_default (if turboMode then min 8 (int (cpuCount env)) else 1)
                      extractionConcurrency))"

text \<open>
  The disk fallback of the \<open>'ram'\<close> mode: resolve the media to a path, then
  \<open>try { frameBuffers = await extractFrames(...); sizeBytes = st?.size ?? sizeBytes }
  finally { await loc.cleanup() }\<close>. An error of \<open>loc.cleanup()\<close> replaces the outcome of
  the \<open>try\<close> block.
\<close>

definition fallback_to_disk ::
  "env \<Rightarrow> media \<Rightarrow> rat list \<Rightarrow> int \<Rightarrow> nat \<Rightarrow> vstate \<Rightarrow> (error + (bytes list \<times> nat)) \<times> vstate" where
  "fallback_to_disk env videoUrl stamps conc sizeBytes s =
     (let s1 = logged EvEnsureLocalPath s
      in case ensureLocalPathWithCleanup env videoUrl (world s1) of
           (Inl e, w) \<Rightarrow> (Inl e, s1\<lparr>world := w\<rparr>)
         | (Inr l, w) \<Rightarrow>
             (let s2 = logged (EvExtractFrames (loc_path l)) (s1\<lparr>world := w\<rparr>);
                  attempt =
                    (case extract_frames env (loc_path l) stamps conc of
                       Inl e \<Rightarrow> Inl e
                     | Inr frameBuffers \<Rightarrow>
                         Inr (frameBuffers,
                              case fs_stat_size env (loc_path l) w of
                                None \<Rightarrow> sizeBytes | Some n \<Rightarrow> n))
              in case run_cleanup (loc_cleanup l) (world s2) of
                   (Inl e, w') \<Rightarrow>
                     (Inl e, logged (EvLocCleanup (loc_cleanup l) False) (s2\<lparr>world := w'\<rparr>))
                 | (Inr u, w') \<Rightarrow>
                     (attempt, logged (EvLocCleanup (loc_cleanup l) True) (s2\<lparr>world := w'\<rparr>))))"

text \<open>Acquisition and extraction in \<open>'ram'\<close> mode, with the fallback on zero frames.\<close>

definition frames_ram ::
  "env \<Rightarrow> media \<Rightarrow> rat \<Rightarrow> bool \<Rightarrow> int option \<Rightarrow> int \<Rightarrow> vstate \<Rightarrow> (error + extraction) \<times> vstate" where
  "frames_ram env videoUrl frames turboMode extractionConcurrency maxBytes s =
     (case acquire_ram env videoUrl maxBytes s of
        (Inl e, s1) \<Rightarrow> (Inl e, s1)
      | (Inr (durationSec, mediaBuf, sizeBytes), s1) \<Rightarrow>
          (case sample_stamps durationSec frames of
             Inl e \<Rightarrow> (Inl e, s1)
           | Inr (d, stamps) \<Rightarrow>
               (let s2 = logged EvExtractAuto s1
                in case extract_auto env mediaBuf \<lfloor>frames\<rfloor> d of
                     Inl e \<Rightarrow> (Inl e, s2)
                   | Inr frameBuffers \<Rightarrow>
                       if frameBuffers = [] then
                         (case fallback_to_disk env videoUrl stamps
                                 (extractConc env turboMode extractionConcurrency) sizeBytes s2 of
                            (Inl e, s3) \<Rightarrow> (Inl e, s3)
                          | (Inr (diskBuffers, diskSize), s3) \<Rightarrow>
                              (Inr \<lparr>ex_frameBuffers = diskBuffers, ex_stamps = stamps,
                                    ex_usedMode = Disk, ex_fallbackToDisk = True,
                                    ex_sizeBytes = diskSize\<rparr>, s3))
                       else (Inr \<lparr>ex_frameBuffers = frameBuffers, ex_stamps = stamps,
                                  ex_usedMode = Ram, ex_fallbackToDisk = False,
                                  ex_sizeBytes = sizeBytes\<rparr>, s2))))"

text \<open>Acquisition and extraction in \<open>'disk'\<close> mode.\<close>

definition frames_disk ::
  "env \<Rightarrow> media \<Rightarrow> rat \<Rightarrow> bool \<Rightarrow> int option \<Rightarrow> int \<Rightarrow> vstate \<Rightarrow> (error + extraction) \<times> vstate" where
  "frames_disk env videoUrl frames turboMode extractionConcurrency maxBytes s =
     (case acquire_disk env videoUrl maxBytes s of
        (Inl e, s1) \<Rightarrow> (Inl e, s1)
      | (Inr (durationSec, path, sizeBytes), s1) \<Rightarrow>
          (case sample_stamps durationSec frames of
             Inl e \<Rightarrow> (Inl e, s1)
           | Inr (d, stamps) \<Rightarrow>
               (let s2 = logged (EvExtractFrames path) s1
                in case extract_frames env path stamps
                          (extractConc env turboMode extractionConcurrency) of
                     Inl e \<Rightarrow> (Inl e, s2)
                   | Inr frameBuffers \<Rightarrow>
                       (Inr \<lparr>ex_frameBuffers = frameBuffers, ex_stamps = stamps,
                             ex_usedMode = Disk, ex_fallbackToDisk = False,
                             ex_sizeBytes = sizeBytes\<rparr>, s2))))"

text \<open>
  The frame loop without turbo mode: resize, predict and score one frame after the other.
  The accumulator is \<open>(frameCount, aggregateScores, results)\<close>; \<open>probs[0]\<close> of an empty
  \<open>probs\<close> is \<open>undefined\<close>, and reading its \<open>length\<close> throws.
\<close>

fun sequential_frames ::
  "env \<Rightarrow> nat \<Rightarrow> nat \<Rightarrow> bool \<Rightarrow> int \<Rightarrow> rat list \<Rightarrow> bytes list \<Rightarrow> nat
     \<Rightarrow> nat \<times> jsnum list \<times> frame_prediction list
     \<Rightarrow> error + nat \<times> jsnum list \<times> frame_prediction list" where
  "sequential_frames env targetW targetH centerCrop k stamps [] i acc = Inr acc"
| "sequential_frames env targetW targetH centerCrop k stamps (buf # rest) i
       (frameCount, aggregateScores, results0) =
     (case toSizedRGBTensor env buf targetW targetH centerCrop of
        Inl e \<Rightarrow> Inl e
      | Inr imageTensor \<Rightarrow>
          (case predict env [imageTensor] of
             Inl e \<Rightarrow> Inl e
           | Inr probs \<Rightarrow>
               (case probs of
                  [] \<Rightarrow> Inl TypeError
                | scores # others \<Rightarrow>
                    sequential_frames env targetW targetH centerCrop k stamps rest (Suc i)
                      (Suc frameCount, add_scores aggregateScores scores,
                       results0 @ [frame_result env k stamps i scores]))))"

text \<open>
  Turbo mode: all frames are resized by the preprocessing pool (index-aligned; when several
  jobs fail the error reported here is that of the first failing frame), then one
  \<open>predict\<close> on the stack, \<open>frameCount = probs.length\<close>, and the rows are summed and scored.
\<close>

definition turbo_frames ::
  "env \<Rightarrow> nat \<Rightarrow> nat \<Rightarrow> bool \<Rightarrow> int \<Rightarrow> rat list \<Rightarrow> bytes list
     \<Rightarrow> nat \<times> jsnum list \<times> frame_prediction list
     \<Rightarrow> error + nat \<times> jsnum list \<times> frame_prediction list" where
  "turbo_frames env targetW targetH centerCrop k stamps frameBuffers acc =
     (case mapM (\<lambda>buf. toSizedRGBTensor env buf targetW targetH centerCrop) frameBuffers of
        Inl e \<Rightarrow> Inl e
      | Inr tensors \<Rightarrow>
          (case predict env tensors of
             Inl e \<Rightarrow> Inl e
           | Inr probs \<Rightarrow>
               Inr (length probs,
                    fold (\<lambda>scores agg. add_scores agg scores) probs (fst (snd acc)),
                    map (\<lambda>(i, scores). frame_result env k stamps i scores) (enumerate 0 probs))))"

text \<open>
  The end of the \<open>try\<close> block: build \<open>out\<close> (its \<open>io.tempCleaned\<close> is the value of the
  local at this point), then \<open>await cleanup(); tempCleaned = true; return out;\<close>.
\<close>

definition finish ::
  "env \<Rightarrow> media \<Rightarrow> rat \<Rightarrow> bool \<Rightarrow> int \<Rightarrow> int \<Rightarrow> extraction
     \<Rightarrow> nat \<times> jsnum list \<times> frame_prediction list \<Rightarrow> vstate \<Rightarrow> (error + video_result) \<times> vstate" where
  "finish env videoUrl frames turboMode maxBytes k ex acc s =
     (case acc of
        (frameCount, aggregateScores, results0) \<Rightarrow>
          (let out = \<lparr>v_videoUrl = videoUrl, v_frames = \<lfloor>frames\<rfloor>, v_turboMode = turboMode,
                      v_classesCount = length (classes env),
                      v_io = \<lparr>io_mode_used = ex_usedMode ex,
                               io_fallbackToDisk = ex_fallbackToDisk ex,
                               io_tempCleaned = tempCleaned s,
                               io_sizeBytes = ex_sizeBytes ex,
                               io_maxBytes = maxBytes\<rparr>,
                      v_results = results0,
                      v_aggregate = overall_preds env k frameCount aggregateScores\<rparr>
           in case run_cleanup (cleanup_var s) (world s) of
                (Inl e, w) \<Rightarrow> (Inl e, logged (EvCleanup (cleanup_var s) False) (s\<lparr>world := w\<rparr>))
              | (Inr u, w) \<Rightarrow>
                  (Inr out, (logged (EvCleanup (cleanup_var s) True) (s\<lparr>world := w\<rparr>))
                              \<lparr>tempCleaned := True\<rparr>)))"

text \<open>\<open>finally { try { await cleanup(); tempCleaned = true; } catch {} }\<close>\<close>

definition finally_cleanup :: "vstate \<Rightarrow> vstate" where
  "finally_cleanup s =
     (case run_cleanup (cleanup_var s) (world s) of
        (Inl e, w) \<Rightarrow> logged (EvCleanup (cleanup_var s) False) (s\<lparr>world := w\<rparr>)
      | (Inr u, w) \<Rightarrow>
          (logged (EvCleanup (cleanup_var s) True) (s\<lparr>world := w\<rparr>))\<lparr>tempCleaned := True\<rparr>)"

text \<open>The default \<open>maxBytes = 10 * 1024 * 1024\<close>.\<close>

definition default_maxBytes :: int where
  "default_maxBytes = 10 * 1024 * 1024"

definition frames_stage ::
  "env \<Rightarrow> io_mode \<Rightarrow> media \<Rightarrow> rat \<Rightarrow> video_opts \<Rightarrow> vstate \<Rightarrow> (error + extraction) \<times> vstate" where
  "frames_stage env ioMode videoUrl frames opts s =
     (case ioMode of
        Ram \<Rightarrow> frames_ram env videoUrl frames (opt_turboMode opts)
                 (opt_extractionConcurrency opts) (with_default default_maxBytes (opt_maxBytes opts)) s
      | Disk \<Rightarrow> frames_disk env videoUrl frames (opt_turboMode opts)
                 (opt_extractionConcurrency opts) (with_default default_maxBytes (opt_maxBytes opts)) s)"

text \<open>
  The frame loop in the selected mode, from \<open>frameCount = 0\<close>,
  \<open>aggregateScores = new Array(classes.length).fill(0)\<close> and no results.
\<close>

definition process_frames ::
  "env \<Rightarrow> nat \<Rightarrow> nat \<Rightarrow> video_opts \<Rightarrow> extraction \<Rightarrow> error + nat \<times> jsnum list \<times> frame_prediction list" where
  "process_frames env targetW targetH opts ex =
     (if opt_turboMode opts
      then turbo_frames env targetW targetH (opt_centerCrop opts) (top_k env (opt_topK opts))
             (ex_stamps ex) (ex_frameBuffers ex) (0, replicate (length (classes env)) (Num 0), [])
      else sequential_frames env targetW targetH (opt_centerCrop opts) (top_k env (opt_topK opts))
             (ex_stamps ex) (ex_frameBuffers ex) 0 (0, replicate (length (classes env)) (Num 0), []))"

text \<open>The \<open>try\<close> block of \<open>classifyVideo\<close>.\<close>

definition video_body ::
  "env \<Rightarrow> io_mode \<Rightarrow> nat \<Rightarrow> nat \<Rightarrow> media \<Rightarrow> rat \<Rightarrow> video_opts \<Rightarrow> vstate
     \<Rightarrow> (error + video_result) \<times> vstate" where
  "video_body env ioMode targetW targetH videoUrl frames opts s =
     (case frames_stage env ioMode videoUrl frames opts s of
        (Inl e, s1) \<Rightarrow> (Inl e, s1)
      | (Inr ex, s1) \<Rightarrow>
          (case process_frames env targetW targetH opts ex of
             Inl e \<Rightarrow> (Inl e, s1)
           | Inr acc \<Rightarrow>
               finish env videoUrl frames (opt_turboMode opts)
                 (with_default default_maxBytes (opt_maxBytes opts)) (top_k env (opt_topK opts))
                 ex acc s1))"

text \<open>\<open>!videoUrl\<close>\<close>

definition is_falsy :: "media \<Rightarrow> bool" where
  "is_falsy m =
     (case m of
        Missing \<Rightarrow> True
      | Text s \<Rightarrow> s = []
      | Buffer b \<Rightarrow> False
      | NotMedia truthy \<Rightarrow> \<not> truthy)"

text \<open>
  \<open>classifyVideo\<close> on a single media reference, for a classifier whose \<open>ioMode\<close> is given:
  the checks before the \<open>try\<close> block, the locals \<open>cleanup = async () => {}\<close> and
  \<open>tempCleaned = false\<close>, the \<open>try\<close> block and the \<open>finally\<close> block.
\<close>

definition classifyVideo ::
  "env \<Rightarrow> io_mode \<Rightarrow> media \<Rightarrow> video_opts \<Rightarrow> vstate \<Rightarrow> (error + video_result) \<times> vstate" where
  "classifyVideo env ioMode videoUrl opts s =
     (if is_falsy videoUrl then (Inl VideoUrlRequired, s)
      else case with_default (Num 10) (opt_frames opts) of
             Num frames \<Rightarrow>
               if frames \<le> 0 then (Inl FramesNotPositive, s)
               else (case input_shape env of
                       None \<Rightarrow> (Inl ShapeUndefined, s)
                     | Some (targetH, targetW) \<Rightarrow>
                         (case ffmpeg_path env of
                            Inl e \<Rightarrow> (Inl e, s)
                          | Inr ffmpegPath \<Rightarrow>
                              (case video_body env ioMode targetW targetH videoUrl frames opts
                                      (s\<lparr>cleanup_var := None, tempCleaned := False\<rparr>) of
                                 (r, s1) \<Rightarrow> (r, finally_cleanup s1))))
           | PosInf \<Rightarrow> (Inl FramesNotPositive, s)
           | NegInf \<Rightarrow> (Inl FramesNotPositive, s)
           | NaN \<Rightarrow> (Inl FramesNotPositive, s))"

text \<open>
  \<open>classifyVideo\<close> on an array: one task per element, run by the video batch pool with
  \<open>maxConcurrent = 2\<close> by default. Each task is taken by the outcome of the single call on
  the state the batch starts from; how the tasks interleave on the temporary directories
  is not modelled.
\<close>

definition classifyVideo_array ::
  "env \<Rightarrow> io_mode \<Rightarrow> media list \<Rightarrow> video_opts \<Rightarrow> int option \<Rightarrow> nat list \<Rightarrow> vstate
     \<Rightarrow> (error + video_result list) option" where
  "classifyVideo_array env ioMode videoUrls opts maxConcurrent schedule s =
     videoBatch_pool (map (\<lambda>u. fst (classifyVideo env ioMode u opts s)) videoUrls)
       (with_default 2 maxConcurrent) schedule"


section \<open>Vocabulary of the statements\<close>

text \<open>The buffers of the inputs of a chunk whose acquisition succeeds, in input order.\<close>

definition acquired :: "env \<Rightarrow> media list \<Rightarrow> bytes list" where
  "acquired env urls =
     concat (map (\<lambda>u. case getImageBuffer env u of Inl e \<Rightarrow> [] | Inr buf \<Rightarrow> [buf]) urls)"

definition acquisition_fails :: "env \<Rightarrow> media \<Rightarrow> bool" where
  "acquisition_fails env u = (\<not> isOk (getImageBuffer env u))"

text \<open>The order in which a chunk's inputs appear in the results: failures, then successes.\<close>

definition chunk_order :: "env \<Rightarrow> media list \<Rightarrow> media list" where
  "chunk_order env urls =
     filter (acquisition_fails env) urls @ filter (\<lambda>u. \<not> acquisition_fails env u) urls"

text \<open>An entry is error-tagged, and has no predictions, exactly when its input's
  acquisition fails.\<close>

definition entry_matches :: "env \<Rightarrow> image_result \<Rightarrow> bool" where
  "entry_matches env r =
     ((err r \<noteq> None) = acquisition_fails env (imageUrl r) \<and>
      (predictions r = None) = acquisition_fails env (imageUrl r))"

text \<open>
  The invariant of an index pool over \<open>jobs\<close>: the queue is what is left of \<open>jobs\<close>
  after the dispatched ones, a runner awaits a dispatched job under its own index, and
  while nothing is rejected every dispatched job is awaited by a runner or recorded in its
  slot.
\<close>

definition recorded :: "(error + 'r) list \<Rightarrow> 'r option list \<Rightarrow> nat \<Rightarrow> bool" where
  "recorded jobs slots i = (\<exists>v. jobs ! i = Inr v \<and> slots ! i = Some v)"

definition dispatched :: "(error + 'r) list \<Rightarrow> ('r, 's) pool \<Rightarrow> nat" where
  "dispatched jobs p = length jobs - length (queue p)"

definition pool_inv :: "(error + 'r) list \<Rightarrow> ('r, 'r option list) pool \<Rightarrow> bool" where
  "pool_inv jobs p =
     (length (queue p) \<le> length jobs \<and>
      queue p = drop (dispatched jobs p) jobs \<and>
      length (store p) = length jobs \<and>
      (\<forall>r < length (runners p). \<forall>idx job. runners p ! r = Some (idx, job) \<longrightarrow>
          idx < dispatched jobs p \<and> job = jobs ! idx) \<and>
      (rejected p = None \<longrightarrow>
         (\<forall>i < dispatched jobs p.
            (\<exists>r < length (runners p). \<exists>job. runners p ! r = Some (i, job)) \<or>
            recorded jobs (store p) i)))"

text \<open>While nothing is rejected and jobs are queued, some runner is awaiting a job.\<close>

definition pool_active :: "('r, 's) pool \<Rightarrow> bool" where
  "pool_active p =
     (rejected p = None \<and> queue p \<noteq> [] \<longrightarrow> (\<exists>r < length (runners p). runners p ! r \<noteq> None))"

text \<open>The number of invocations of the local \<open>cleanup\<close> in a trace.\<close>

fun is_cleanup :: "event \<Rightarrow> bool" where
  "is_cleanup (EvCleanup c ok) = True"
| "is_cleanup e = False"

definition cleanups :: "vstate \<Rightarrow> nat" where
  "cleanups s = length (filter is_cleanup (calls s))"


text \<open>The checks of \<open>classifyVideo\<close> before its \<open>try\<close> block all pass.\<close>

definition enters_try :: "env \<Rightarrow> media \<Rightarrow> video_opts \<Rightarrow> bool" where
  "enters_try env videoUrl opts =
     (\<not> is_falsy videoUrl \<and>
      isFinite (with_default (Num 10) (opt_frames opts)) \<and>
      gt_zero (with_default (Num 10) (opt_frames opts)) \<and>
      input_shape env \<noteq> None \<and> isOk (ffmpeg_path env))"


section \<open>A concrete environment\<close>

text \<open>
  An inference engine with two labels whose top-k sorts a row by descending score and
  rejects a \<open>k\<close> beyond the row width, an image codec that returns its input, no network,
  no user files, a ten-second duration, an in-memory extractor that delivers no frame and
  a file extractor that delivers one frame per timestamp.
\<close>

definition example_topk :: "rat list list \<Rightarrow> int \<Rightarrow> error + (rat list list \<times> nat list list)" where
  "example_topk logits k =
     (if list_all (\<lambda>row. k \<le> int (length row)) logits
      then Inr (map (\<lambda>row. map (\<lambda>i. row ! i)
                              (take (nat k) (sort_key (\<lambda>i. - row ! i) [0..<length row]))) logits,
                map (\<lambda>row. take (nat k) (sort_key (\<lambda>i. - row ! i) [0..<length row])) logits)
      else Inl (External ''topk: k exceeds the last dimension''))"

definition example_env :: env where
  "example_env =
     \<lparr>http_get = (\<lambda>url. Inl (External ''offline'')),
      read_file = (\<lambda>p. Inl (Errno ''ENOENT'')),
      base64_decode = (\<lambda>s. map of_char s),
      useWorkers = False,
      worker_resize = (\<lambda>b w h c. Inl (External ''no worker'')),
      sharp_resize = (\<lambda>b w h c. Inr b),
      input_shape = Some (2, 2),
      classes = [''cat'', ''dog''],
      predict = (\<lambda>ts. if ts = [] then Inl (External ''stack: empty list'')
                        else Inr (map (\<lambda>t. [1 / 4, 3 / 4]) ts)),
      topk = example_topk,
      ffmpeg_path = Inr ''ffmpeg'',
      probe_buffer = (\<lambda>b. Some 10),
      probe_path = (\<lambda>p. Some 10),
      cpuCount = 4,
      extract_auto = (\<lambda>b n d. Inr []),
      extract_frames = (\<lambda>p ts c. Inr (map (\<lambda>t. [7]) ts))\<rparr>"

text \<open>The same engine with five labels and four score columns.\<close>

definition mismatch_env :: env where
  "mismatch_env =
     example_env\<lparr>classes := [''a'', ''b'', ''c'', ''d'', ''e''],
                 predict := (\<lambda>ts. Inr (map (\<lambda>t. [1 / 10, 4 / 10, 2 / 10, 3 / 10]) ts))\<rparr>"

text \<open>A file extractor that delivers no frame.\<close>

definition no_frames_env :: env where
  "no_frames_env = example_env\<lparr>extract_frames := (\<lambda>p ts c. Inr [])\<rparr>"

definition empty_fs :: fs where
  "empty_fs = \<lparr>tmp_dirs = [], tmp_files = [], next_dir = 0, mkdtemp_fails = False,
               write_fails = False, locked = []\<rparr>"

definition init_state :: vstate where
  "init_state = \<lparr>world = empty_fs, calls = [], cleanup_var = None, tempCleaned = False\<rparr>"

definition default_opts :: video_opts where
  "default_opts = \<lparr>opt_frames = None, opt_topK = None, opt_centerCrop = True, opt_turboMode = False,
     opt_extractionConcurrency = None, opt_preprocessConcurrency = None, opt_maxBytes = None\<rparr>"

section \<open>Properties of the frame sampler\<close>

lemma sample_loop_eq:
  "sample_loop durationSec (of_int n) k ts =
     ts @ map (\<lambda>j. ((of_nat j + 1 / 2) / of_int n) * durationSec) [k..<nat n]"
proof (induction durationSec "of_int n :: rat" k ts rule: sample_loop.induct)
  case (1 durationSec k ts)
  show ?case
  proof (cases "int k < n")
    case True
    then have lt: "(of_nat k :: rat) < of_int n"
      by (metis of_int_less_iff of_int_of_nat_eq)
    have kn: "k < nat n"
      using True by linarith
    have "sample_loop durationSec (of_int n) k ts =
            sample_loop durationSec (of_int n) (Suc k)
              (ts @ [((of_nat k + 1 / 2) / of_int n) * durationSec])"
      using lt by (subst sample_loop.simps) simp
    also have "\<dots> = (ts @ [((of_nat k + 1 / 2) / of_int n) * durationSec]) @
                 map (\<lambda>j. ((of_nat j + 1 / 2) / of_int n) * durationSec) [Suc k..<nat n]"
      using "1" lt by simp
    finally show ?thesis
      using kn by (simp add: upt_conv_Cons)
  next
    case False
    then have nlt: "\<not> (of_nat k :: rat) < of_int n"
      by (metis of_int_less_iff of_int_of_nat_eq)
    have "nat n \<le> k"
      using False by linarith
    then show ?thesis
      using nlt by (subst sample_loop.simps) simp
  qed
qed

text \<open>
  C8. For a positive duration and a positive integer count the sampler returns exactly
  \<open>count\<close> timestamps, the k-th being \<open>(k + 0.5) / count * durationSec\<close>; it returns the
  empty sequence when the duration or the count is not positive; and
  \<open>sampleTimestamps(10, 4) = [1.25, 3.75, 6.25, 8.75]\<close>. Arithmetic is exact (rationals).
\<close>

theorem sampleTimestamps_midpoints:
  "(0 < durationSec \<and> 0 < n \<longrightarrow>
      length (sampleTimestamps durationSec (of_int n)) = nat n \<and>
      (\<forall>k < nat n. sampleTimestamps durationSec (of_int n) ! k
                     = (of_nat k + 1 / 2) / of_int n * durationSec)) \<and>
   (durationSec \<le> 0 \<or> cnt \<le> 0 \<longrightarrow> sampleTimestamps durationSec cnt = []) \<and>
   sampleTimestamps 10 4 = [5 / 4, 15 / 4, 25 / 4, 35 / 4]"
proof (intro conjI impI)
  assume pos: "0 < durationSec \<and> 0 < n"
  then have eq: "sampleTimestamps durationSec (of_int n) =
      map (\<lambda>j. ((of_nat j + 1 / 2) / of_int n) * durationSec) [0..<nat n]"
    by (simp add: sampleTimestamps_def sample_loop_eq)
  show "length (sampleTimestamps durationSec (of_int n)) = nat n"
    by (simp add: eq)
  show "\<forall>k < nat n. sampleTimestamps durationSec (of_int n) ! k
                     = (of_nat k + 1 / 2) / of_int n * durationSec"
    by (simp add: eq)
next
  assume "durationSec \<le> 0 \<or> cnt \<le> 0"
  then show "sampleTimestamps durationSec cnt = []"
    by (auto simp: sampleTimestamps_def)
next
  have up: "[0..<nat 4] = [0, Suc 0, Suc (Suc 0), Suc (Suc (Suc 0))]"
    by (simp add: upt_conv_Cons numeral_eq_Suc)
  have "sample_loop 10 4 0 [] = [5 / 4, 15 / 4, 25 / 4, 35 / 4]"
    using sample_loop_eq [of 10 4 0 "[]"] unfolding up by simp
  then show "sampleTimestamps 10 4 = [5 / 4, 15 / 4, 25 / 4, 35 / 4]"
    by (simp add: sampleTimestamps_def)
qed

theorem sampleTimestamps_midpoints_witness:
  "length (sampleTimestamps 10 (of_int 4)) = nat 4 \<and>
   sampleTimestamps 10 (of_int 4) ! 2 = (of_nat 2 + 1 / 2) / of_int 4 * 10 \<and>
   sampleTimestamps 0 4 = [] \<and> sampleTimestamps 10 0 = []"
proof -
  have a: "(0::rat) < 10 \<and> (0::int) < 4"
    by simp
  have b: "(2::nat) < nat 4"
    by simp
  have c: "(0::rat) \<le> 0 \<or> (4::rat) \<le> 0"
    by simp
  have d: "(10::rat) \<le> 0 \<or> (0::rat) \<le> 0"
    by simp
  from sampleTimestamps_midpoints [of 10 4 4] a b
  have "length (sampleTimestamps 10 (of_int 4)) = nat 4"
    and "sampleTimestamps 10 (of_int 4) ! 2 = (of_nat 2 + 1 / 2) / of_int 4 * 10"
    by blast+
  moreover from sampleTimestamps_midpoints [of 0 4 4] c have "sampleTimestamps 0 4 = []"
    by blast
  moreover from sampleTimestamps_midpoints [of 10 4 0] d have "sampleTimestamps 10 0 = []"
    by blast
  ultimately show ?thesis
    by blast
qed

section \<open>Properties of the routing\<close>

text \<open>
  C10. With \<open>mediaType\<close> left at its default, an input that is not of the
  \<open>{images, videos}\<close> object form is routed to video classification exactly when \<open>frames\<close>
  is a finite positive number, which the default \<open>frames = 10\<close> is; for any media type,
  image classification is reached exactly when the media type is not \<open>'video'\<close> and either
  it is \<open>'image'\<close> or \<open>frames\<close> is not a finite positive number.
\<close>

theorem classify_auto_routes_to_video:
  "\<not> is_mixed_form input \<Longrightarrow>
     (classify input None (Some frames) = RouteVideos input \<longleftrightarrow> isFinite frames \<and> gt_zero frames) \<and>
     (classify input None (Some frames) = RouteImages input \<longleftrightarrow> \<not> (isFinite frames \<and> gt_zero frames)) \<and>
     classify input None None = RouteVideos input \<and>
     (classify input (Some mediaType) (Some frames) = RouteImages input \<longleftrightarrow>
        mediaType \<noteq> ''video'' \<and> (mediaType = ''image'' \<or> \<not> (isFinite frames \<and> gt_zero frames)))"
  by (cases input) (auto simp: classify_def isVideo_def with_default_def)

theorem classify_auto_routes_to_video_witness:
  "classify (Array [''a.mp4'', ''b.png'']) None (Some (Num 3)) = RouteVideos (Array [''a.mp4'', ''b.png'']) \<and>
   classify (Array [''a.mp4'', ''b.png'']) None (Some (Num 0)) = RouteImages (Array [''a.mp4'', ''b.png'']) \<and>
   classify (Array [''a.mp4'', ''b.png'']) None (Some PosInf) = RouteImages (Array [''a.mp4'', ''b.png'']) \<and>
   classify (Array [''a.mp4'', ''b.png'']) None None = RouteVideos (Array [''a.mp4'', ''b.png'']) \<and>
   classify (Scalar ''b.png'') (Some ''image'') (Some (Num 10)) = RouteImages (Scalar ''b.png'')"
proof -
  have a: "\<not> is_mixed_form (Array [''a.mp4'', ''b.png''])"
    by simp
  have b: "\<not> is_mixed_form (Scalar ''b.png'')"
    by simp
  show ?thesis
    using classify_auto_routes_to_video [OF a, of "Num 3" "''image''"]
      classify_auto_routes_to_video [OF a, of "Num 0" "''image''"]
      classify_auto_routes_to_video [OF a, of PosInf "''image''"]
      classify_auto_routes_to_video [OF b, of "Num 10" "''image''"]
    by simp
qed

section \<open>Properties of the worker pools\<close>

lemma effective_concurrency_clamped:
  "0 < n \<Longrightarrow> 1 \<le> effective_concurrency c n \<and> effective_concurrency c n \<le> n"
  by (auto simp: effective_concurrency_def)

lemma effective_concurrency_no_jobs: "effective_concurrency c 0 = 1"
  by (simp add: effective_concurrency_def)

text \<open>
  C5. The video batch pool appends each result when its job settles. With two videos, the
  default \<open>maxConcurrent = 2\<close> and the second video settling first, the array returned by
  \<open>classifyVideo\<close> holds the result of the second video at index 0 and that of the first at
  index 1: it is not index-aligned to the submission order.
\<close>

theorem videoBatch_results_in_completion_order:
  "map_option (map_sum id (map v_videoUrl))
     (classifyVideo_array example_env Disk [Buffer [1], Buffer [2, 2]] default_opts None [1, 0]
        init_state)
   = Some (Inr [Buffer [2, 2], Buffer [1]])"
  by code_simp

lemma videoBatch_results_in_order_when_settling_in_order:
  "map_option (map_sum id (map v_videoUrl))
     (classifyVideo_array example_env Disk [Buffer [1], Buffer [2, 2]] default_opts None [0, 1]
        init_state)
   = Some (Inr [Buffer [1], Buffer [2, 2]])"
  by code_simp

text \<open>
  The index pools are index-aligned under every schedule: when the pool completes, slot
  \<open>i\<close> holds the value of job \<open>i\<close>.
\<close>

lemma runner_loop_length [simp]: "length (runners (runner_loop n r p)) = length (runners p)"
  by (simp add: runner_loop_def split: list.splits)

lemma runner_loop_active: "r < length (runners p) \<Longrightarrow> pool_active (runner_loop n r p)"
  by (auto simp: runner_loop_def pool_active_def split: list.splits)

lemma drop_eq_Cons_nth: "drop d xs = y # ys \<Longrightarrow> d < length xs \<and> xs ! d = y \<and> drop (Suc d) xs = ys"
  by (metis Cons_nth_drop_Suc drop_eq_Nil leI list.distinct(1) list.inject)

lemma runner_loop_inv:
  assumes inv: "pool_inv jobs p"
    and r: "r < length (runners p)"
    and idle: "runners p ! r = None \<or>
               (\<exists>idx job. runners p ! r = Some (idx, job) \<and> recorded jobs (store p) idx)"
  shows "pool_inv jobs (runner_loop (length jobs) r p)"
proof (cases "queue p")
  case Nil
  have "\<And>i. i < dispatched jobs p \<Longrightarrow> rejected p = None \<Longrightarrow>
          (\<exists>r' < length (runners p). \<exists>job. ((runners p)[r := None]) ! r' = Some (i, job)) \<or>
          recorded jobs (store p) i"
  proof -
    fix i assume i: "i < dispatched jobs p" and rj: "rejected p = None"
    from inv i rj consider
      (held) r' job where "r' < length (runners p)" "runners p ! r' = Some (i, job)"
      | (stored) "recorded jobs (store p) i"
      unfolding pool_inv_def by blast
    then show "(\<exists>r' < length (runners p). \<exists>job. ((runners p)[r := None]) ! r' = Some (i, job)) \<or>
          recorded jobs (store p) i"
    proof cases
      case held
      show ?thesis
      proof (cases "r' = r")
        case True
        then show ?thesis
          using held idle by auto
      next
        case False
        then show ?thesis
          using held by (metis nth_list_update_neq)
      qed
    next
      case stored
      then show ?thesis by blast
    qed
  qed
  then show ?thesis
    using inv r Nil
    by (auto simp: pool_inv_def runner_loop_def dispatched_def nth_list_update)
next
  case (Cons job rest)
  let ?d = "dispatched jobs p"
  have q: "queue p = drop ?d jobs"
    using inv by (simp add: pool_inv_def)
  from drop_eq_Cons_nth [of ?d jobs job rest] q Cons
  have d: "?d < length jobs" "jobs ! ?d = job" "drop (Suc ?d) jobs = rest"
    by simp_all
  have len: "length (queue p) \<le> length jobs"
    using inv by (simp add: pool_inv_def)
  have d': "length jobs - length rest = Suc ?d"
    using Cons len by (simp add: dispatched_def)
  have cover: "\<And>i. i < Suc ?d \<Longrightarrow> rejected p = None \<Longrightarrow>
          (\<exists>r' < length (runners p). \<exists>job'. ((runners p)[r := Some (?d, job)]) ! r' = Some (i, job')) \<or>
          recorded jobs (store p) i"
  proof -
    fix i assume i: "i < Suc ?d" and rj: "rejected p = None"
    show "(\<exists>r' < length (runners p). \<exists>job'. ((runners p)[r := Some (?d, job)]) ! r' = Some (i, job')) \<or>
          recorded jobs (store p) i"
    proof (cases "i = ?d")
      case True
      then show ?thesis
        using r by auto
    next
      case False
      then have "i < ?d" using i by simp
      with inv rj consider
        (held) r' job' where "r' < length (runners p)" "runners p ! r' = Some (i, job')"
        | (stored) "recorded jobs (store p) i"
        unfolding pool_inv_def by blast
      then show ?thesis
      proof cases
        case held
        show ?thesis
        proof (cases "r' = r")
          case True
          then show ?thesis
            using held idle by auto
        next
          case False
          then show ?thesis
            using held by (metis nth_list_update_neq)
        qed
      next
        case stored
        then show ?thesis by blast
      qed
    qed
  qed
  have held: "\<And>r' idx job'. r' < length (runners p) \<Longrightarrow>
      ((runners p)[r := Some (?d, job)]) ! r' = Some (idx, job') \<Longrightarrow>
      idx < Suc ?d \<and> job' = jobs ! idx"
  proof -
    fix r' idx job'
    assume a: "r' < length (runners p)" "((runners p)[r := Some (?d, job)]) ! r' = Some (idx, job')"
    show "idx < Suc ?d \<and> job' = jobs ! idx"
    proof (cases "r' = r")
      case True
      then show ?thesis
        using a r d by simp
    next
      case False
      then have "runners p ! r' = Some (idx, job')"
        using a by simp
      then show ?thesis
        using inv a(1) unfolding pool_inv_def by (metis less_Suc_eq)
    qed
  qed
  have st: "length (store p) = length jobs"
    using inv by (simp add: pool_inv_def)
  show ?thesis
    unfolding pool_inv_def runner_loop_def Cons
    using d d' st cover held Cons len
    by (simp add: dispatched_def)
qed

lemma settle_length [simp]: "length (runners (settle f n r p)) = length (runners p)"
  by (auto simp: settle_def split: option.splits sum.splits prod.splits)

lemma settle_active: "pool_active p \<Longrightarrow> pool_active (settle f n r p)"
proof (cases "r < length (runners p)")
  case False
  assume "pool_active p"
  then show ?thesis
    using False by (simp add: settle_def)
next
  case True
  assume a: "pool_active p"
  show ?thesis
  proof (cases "runners p ! r")
    case None
    then show ?thesis
      using a True by (simp add: settle_def)
  next
    case (Some held)
    obtain idx job where h: "held = (idx, job)"
      by (cases held)
    show ?thesis
    proof (cases job)
      case (Inl e)
      then show ?thesis
        using Some h True by (simp add: settle_def pool_active_def split: option.splits)
    next
      case (Inr v)
      have "r < length (runners (p\<lparr>store := f idx v (store p)\<rparr>))"
        using True by simp
      from runner_loop_active [OF this] show ?thesis
        using Some h Inr True by (simp add: settle_def)
    qed
  qed
qed

lemma settle_inv:
  assumes inv: "pool_inv jobs p"
  shows "pool_inv jobs (settle (\<lambda>idx v slots. slots[idx := Some v]) (length jobs) r p)"
proof (cases "r < length (runners p)")
  case False
  then show ?thesis
    using inv by (simp add: settle_def)
next
  case True
  show ?thesis
  proof (cases "runners p ! r")
    case None
    then show ?thesis
      using inv True by (simp add: settle_def)
  next
    case (Some held)
    obtain idx job where h: "held = (idx, job)"
      by (cases held)
    have hj: "idx < dispatched jobs p" "job = jobs ! idx"
      using inv True Some h unfolding pool_inv_def by blast+
    have st: "length (store p) = length jobs"
      using inv by (simp add: pool_inv_def)
    have dl: "dispatched jobs p \<le> length jobs"
      by (simp add: dispatched_def)
    show ?thesis
    proof (cases job)
      case (Inl e)
      have "pool_inv jobs (p\<lparr>runners := (runners p)[r := None],
               rejected := (case rejected p of None \<Rightarrow> Some e | Some e' \<Rightarrow> Some e')\<rparr>)"
        using inv True unfolding pool_inv_def dispatched_def
        by (auto simp: nth_list_update split: option.splits if_splits)
      then show ?thesis
        using Some h Inl True by (simp add: settle_def)
    next
      case (Inr v)
      let ?p' = "p\<lparr>store := (store p)[idx := Some v]\<rparr>"
      have rec: "\<And>i. recorded jobs (store p) i \<Longrightarrow> recorded jobs (store ?p') i"
        using hj Inr st dl by (auto simp: recorded_def nth_list_update)
      have inv': "pool_inv jobs ?p'"
        using inv rec unfolding pool_inv_def dispatched_def by simp blast
      have now: "recorded jobs (store ?p') idx"
        using hj Inr st dl by (simp add: recorded_def)
      have "pool_inv jobs (runner_loop (length jobs) r ?p')"
        by (rule runner_loop_inv [OF inv']) (use True Some h now in auto)
      then show ?thesis
        using Some h Inr True by (simp add: settle_def)
    qed
  qed
qed

lemma fold_settle_inv:
  "pool_inv jobs p \<Longrightarrow> pool_active p \<Longrightarrow>
     pool_inv jobs (fold (settle (\<lambda>idx v slots. slots[idx := Some v]) (length jobs)) schedule p) \<and>
     pool_active (fold (settle (\<lambda>idx v slots. slots[idx := Some v]) (length jobs)) schedule p)"
  by (induction schedule arbitrary: p) (auto intro: settle_inv settle_active)

lemma start_fold_inv:
  fixes jobs :: "(error + 'r) list"
  defines "p0 c \<equiv> pool_init jobs c (replicate (length jobs) (None :: 'r option))"
  assumes "k \<le> c"
  shows "pool_inv jobs (fold (runner_loop (length jobs)) [0..<k] (p0 c)) \<and>
         (\<forall>r. k \<le> r \<and> r < c \<longrightarrow>
            runners (fold (runner_loop (length jobs)) [0..<k] (p0 c)) ! r = None) \<and>
         length (runners (fold (runner_loop (length jobs)) [0..<k] (p0 c))) = c"
  using assms(2)
proof (induction k)
  case 0
  show ?case
    by (simp add: p0_def pool_init_def pool_inv_def dispatched_def)
next
  case (Suc k)
  let ?p = "fold (runner_loop (length jobs)) [0..<k] (p0 c)"
  from Suc.IH Suc.prems have ih: "pool_inv jobs ?p"
    "\<forall>r. k \<le> r \<and> r < c \<longrightarrow> runners ?p ! r = None" "length (runners ?p) = c"
    by auto
  have k: "k < length (runners ?p)" "runners ?p ! k = None"
    using ih Suc.prems by simp_all
  have step: "fold (runner_loop (length jobs)) [0..<Suc k] (p0 c) = runner_loop (length jobs) k ?p"
    by simp
  have a: "pool_inv jobs (runner_loop (length jobs) k ?p)"
    by (rule runner_loop_inv [OF ih(1) k(1)]) (simp add: k(2))
  have b: "\<forall>r. Suc k \<le> r \<and> r < c \<longrightarrow> runners (runner_loop (length jobs) k ?p) ! r = None"
    using ih(2) by (auto simp: runner_loop_def split: list.splits)
  show ?case
    unfolding step using a b ih(3) by simp
qed

lemma pool_start_inv:
  fixes jobs :: "(error + 'r) list"
  shows "pool_inv jobs (pool_start jobs concurrency (replicate (length jobs) (None :: 'r option))) \<and>
         pool_active (pool_start jobs concurrency (replicate (length jobs) (None :: 'r option)))"
proof -
  let ?c = "effective_concurrency concurrency (length jobs)"
  let ?p0 = "pool_init jobs ?c (replicate (length jobs) (None :: 'r option))"
  have c: "0 < ?c"
    by (simp add: effective_concurrency_def)
  then obtain k where k: "?c = Suc k"
    by (cases ?c) auto
  have inv: "pool_inv jobs (fold (runner_loop (length jobs)) [0..<?c] ?p0)"
    using start_fold_inv [of ?c ?c jobs] by simp
  have "length (runners (fold (runner_loop (length jobs)) [0..<k] ?p0)) = ?c"
    using start_fold_inv [of k ?c jobs] k by simp
  then have "k < length (runners (fold (runner_loop (length jobs)) [0..<k] ?p0))"
    using k by simp
  from runner_loop_active [OF this]
  have act: "pool_active (fold (runner_loop (length jobs)) [0..<?c] ?p0)"
    unfolding k by simp
  show ?thesis
    using inv act by (simp add: pool_start_def Let_def)
qed

lemma pool_inv_cover:
  "pool_inv jobs p \<Longrightarrow> rejected p = None \<Longrightarrow> i < dispatched jobs p \<Longrightarrow>
     (\<exists>r < length (runners p). \<exists>job. runners p ! r = Some (i, job)) \<or> recorded jobs (store p) i"
  by (simp add: pool_inv_def)

lemma pool_inv_store_length: "pool_inv jobs p \<Longrightarrow> length (store p) = length jobs"
  by (simp add: pool_inv_def)

lemma pool_run_inv:
  fixes jobs :: "(error + 'r) list"
  shows "pool_inv jobs (pool_run (\<lambda>idx v slots. slots[idx := Some v]) jobs concurrency
              (replicate (length jobs) (None :: 'r option)) schedule)"
    and "pool_active (pool_run (\<lambda>idx v slots. slots[idx := Some v]) jobs concurrency
              (replicate (length jobs) (None :: 'r option)) schedule)"
proof -
  note st = pool_start_inv [of jobs concurrency]
  note f = fold_settle_inv [OF conjunct1 [OF st] conjunct2 [OF st], of schedule]
  show "pool_inv jobs (pool_run (\<lambda>idx v slots. slots[idx := Some v]) jobs concurrency
              (replicate (length jobs) (None :: 'r option)) schedule)"
    using f unfolding pool_run_def by (rule conjunct1)
  show "pool_active (pool_run (\<lambda>idx v slots. slots[idx := Some v]) jobs concurrency
              (replicate (length jobs) (None :: 'r option)) schedule)"
    using f unfolding pool_run_def by (rule conjunct2)
qed

lemma indexed_pool_index_aligned:
  fixes jobs :: "(error + 'r) list"
  assumes "indexed_pool jobs concurrency schedule = Some (Inr slots)"
  shows "length slots = length jobs \<and> list_all isOk jobs \<and> map Inr (map the slots) = jobs \<and>
         list_all (\<lambda>x. x \<noteq> None) slots"
proof -
  define p where "p = pool_run (\<lambda>idx v slots. slots[idx := Some v]) jobs concurrency
              (replicate (length jobs) (None :: 'r option)) schedule"
  have inv: "pool_inv jobs p" and act: "pool_active p"
    unfolding p_def by (rule pool_run_inv)+
  have o: "pool_outcome p = Some (Inr slots)"
    using assms by (simp add: indexed_pool_def p_def)
  have rj: "rejected p = None"
    using o by (cases "rejected p") (simp_all add: pool_outcome_def)
  have al: "list_all (\<lambda>r. r = None) (runners p)" and st: "store p = slots"
    using o rj by (simp_all add: pool_outcome_def split: if_splits)
  have idle: "runners p ! r = None" if "r < length (runners p)" for r
    using al that by (simp add: list_all_length)
  have q: "queue p = []"
  proof (rule ccontr)
    assume "queue p \<noteq> []"
    with act rj obtain r where "r < length (runners p)" "runners p ! r \<noteq> None"
      unfolding pool_active_def by blast
    with idle show False
      by simp
  qed
  then have d: "dispatched jobs p = length jobs"
    by (simp add: dispatched_def)
  have rec: "recorded jobs slots i" if "i < length jobs" for i
  proof -
    from that d have "i < dispatched jobs p"
      by simp
    from pool_inv_cover [OF inv rj this] have
      "(\<exists>r < length (runners p). \<exists>job. runners p ! r = Some (i, job)) \<or> recorded jobs (store p) i" .
    moreover have "\<not> (\<exists>r < length (runners p). \<exists>job. runners p ! r = Some (i, job))"
      using idle by simp
    ultimately show ?thesis
      using st by simp
  qed
  have len: "length slots = length jobs"
    using pool_inv_store_length [OF inv] st by simp
  have ok: "list_all isOk jobs"
    unfolding list_all_length
  proof (intro allI impI)
    fix i assume "i < length jobs"
    from rec [OF this] show "isOk (jobs ! i)"
      by (auto simp: recorded_def)
  qed
  have m: "map Inr (map the slots) = jobs"
  proof (rule nth_equalityI)
    show "length (map Inr (map the slots)) = length jobs"
      by (simp add: len)
  next
    fix i assume "i < length (map Inr (map the slots))"
    then have i: "i < length jobs"
      by (simp add: len)
    from rec [OF i] obtain v where "jobs ! i = Inr v" "slots ! i = Some v"
      by (auto simp: recorded_def)
    then show "map Inr (map the slots) ! i = jobs ! i"
      using i len by simp
  qed
  have s: "list_all (\<lambda>x. x \<noteq> None) slots"
    unfolding list_all_length
  proof (intro allI impI)
    fix i assume "i < length slots"
    then have "i < length jobs"
      by (simp add: len)
    from rec [OF this] show "slots ! i \<noteq> None"
      by (auto simp: recorded_def)
  qed
  show ?thesis
    using len ok m s by simp
qed

lemma indexed_pool_aligned_example:
  "indexed_pool [Inr ''f0'', Inr ''f1'', Inr ''f2''] 2 [1, 1, 0]
     = Some (Inr [Some ''f0'', Some ''f1'', Some ''f2''])"
  by code_simp


section \<open>Properties of the image batch\<close>

lemma mapM_length: "mapM f xs = Inr ys \<Longrightarrow> length ys = length xs"
  by (induction xs arbitrary: ys) (auto split: sum.splits)

lemma enumerate_filter_map_aux:
  "map (\<lambda>(idx, r). f ((pre @ xs) ! idx) r)
       (filter (\<lambda>(idx, r). P r) (enumerate (length pre) (map g xs)))
   = map (\<lambda>u. f u (g u)) (filter (\<lambda>u. P (g u)) xs)"
proof (induction xs arbitrary: pre)
  case Nil
  show ?case by simp
next
  case (Cons x xs)
  have "map (\<lambda>(idx, r). f (((pre @ [x]) @ xs) ! idx) r)
          (filter (\<lambda>(idx, r). P r) (enumerate (length (pre @ [x])) (map g xs)))
        = map (\<lambda>u. f u (g u)) (filter (\<lambda>u. P (g u)) xs)"
    by (rule Cons.IH)
  then show ?case by simp
qed

lemma enumerate_filter_map:
  "map (\<lambda>(idx, r). f (xs ! idx) r) (filter (\<lambda>(idx, r). P r) (enumerate 0 (map g xs)))
   = map (\<lambda>u. f u (g u)) (filter (\<lambda>u. P (g u)) xs)"
  using enumerate_filter_map_aux [of f "[]" xs P g] by simp

lemma ok_buffers_eq:
  "concat (map (\<lambda>(idx, r). case r of Inl e \<Rightarrow> [] | Inr buf \<Rightarrow> [buf])
             (filter (\<lambda>(idx, r). isOk r) (enumerate n (map g xs))))
   = concat (map (\<lambda>u. case g u of Inl e \<Rightarrow> [] | Inr buf \<Rightarrow> [buf]) xs)"
  by (induction xs arbitrary: n) (auto split: sum.splits)

lemma length_acquired:
  "length (acquired env urls) = length (filter (\<lambda>u. \<not> acquisition_fails env u) urls)"
  by (induction urls) (auto simp: acquired_def acquisition_fails_def split: sum.splits)

lemma processChunk_Inr:
  assumes "processChunk env targetW targetH topK centerCrop urls results0 = Inr results1"
  shows "\<exists>preds. infer_buffers env targetW targetH topK centerCrop (acquired env urls) = Inr preds \<and>
           length preds = length (filter (\<lambda>u. \<not> acquisition_fails env u) urls) \<and>
           results1 = results0 @
             map (\<lambda>u. \<lparr>imageUrl = u,
                         err = (case getImageBuffer env u of Inl e \<Rightarrow> Some e | Inr b \<Rightarrow> None),
                         classesCount = length (classes env), predictions = None\<rparr>)
                 (filter (acquisition_fails env) urls) @
             map (\<lambda>(u, p). \<lparr>imageUrl = u, err = None,
                              classesCount = length (classes env), predictions = Some p\<rparr>)
                 (zip (filter (\<lambda>u. \<not> acquisition_fails env u) urls) preds)"
proof -
  let ?dl = "enumerate 0 (map (getImageBuffer env) urls)"
  let ?ok = "filter (\<lambda>(idx, r). isOk r) ?dl"
  have bufs: "concat (map (\<lambda>(idx, r). case r of Inl e \<Rightarrow> [] | Inr buf \<Rightarrow> [buf]) ?ok)
                = acquired env urls"
    by (simp add: ok_buffers_eq acquired_def)
  from assms obtain preds where
    inf: "infer_buffers env targetW targetH topK centerCrop (acquired env urls) = Inr preds"
    and res: "results1 = results0 @
        map (\<lambda>(idx, r). \<lparr>imageUrl = urls ! idx,
                           err = (case r of Inl e \<Rightarrow> Some e | Inr b \<Rightarrow> None),
                           classesCount = length (classes env), predictions = None\<rparr>)
            (filter (\<lambda>(idx, r). \<not> isOk r) ?dl) @
        map (\<lambda>((okIdx, r), p). \<lparr>imageUrl = urls ! okIdx, err = None,
                                  classesCount = length (classes env), predictions = Some p\<rparr>)
            (zip ?ok preds)"
    unfolding processChunk_def Let_def bufs by (auto split: sum.splits)
  have len: "length preds = length (filter (\<lambda>u. \<not> acquisition_fails env u) urls)"
    using inf
    by (auto simp: infer_buffers_def length_acquired [symmetric] split: sum.splits prod.splits
             dest: mapM_length)
  have fails: "map (\<lambda>(idx, r). \<lparr>imageUrl = urls ! idx,
                           err = (case r of Inl e \<Rightarrow> Some e | Inr b \<Rightarrow> None),
                           classesCount = length (classes env), predictions = None\<rparr>)
            (filter (\<lambda>(idx, r). \<not> isOk r) ?dl)
      = map (\<lambda>u. \<lparr>imageUrl = u,
                         err = (case getImageBuffer env u of Inl e \<Rightarrow> Some e | Inr b \<Rightarrow> None),
                         classesCount = length (classes env), predictions = None\<rparr>)
                 (filter (acquisition_fails env) urls)"
    using enumerate_filter_map
      [of "\<lambda>u r. \<lparr>imageUrl = u, err = (case r of Inl e \<Rightarrow> Some e | Inr b \<Rightarrow> None),
                    classesCount = length (classes env), predictions = None\<rparr>"
          urls "\<lambda>r. \<not> isOk r" "getImageBuffer env"]
    by (simp add: acquisition_fails_def [abs_def])
  have okurls: "map (\<lambda>(idx, r). urls ! idx) ?ok = filter (\<lambda>u. \<not> acquisition_fails env u) urls"
    using enumerate_filter_map [of "\<lambda>u r. u" urls isOk "getImageBuffer env"]
    by (simp add: acquisition_fails_def [abs_def])
  have oks: "map (\<lambda>((okIdx, r), p). \<lparr>imageUrl = urls ! okIdx, err = None,
                                  classesCount = length (classes env), predictions = Some p\<rparr>)
            (zip ?ok preds)
      = map (\<lambda>(u, p). \<lparr>imageUrl = u, err = None,
                              classesCount = length (classes env), predictions = Some p\<rparr>)
                 (zip (filter (\<lambda>u. \<not> acquisition_fails env u) urls) preds)"
    unfolding okurls [symmetric] zip_map1 by (simp add: case_prod_beta)
  show ?thesis
    using inf len res fails oks by simp
qed

lemma isOk_processChunk:
  "isOk (processChunk env targetW targetH topK centerCrop urls results0)
     = isOk (infer_buffers env targetW targetH topK centerCrop (acquired env urls))"
  unfolding processChunk_def Let_def ok_buffers_eq acquired_def [symmetric]
  by (simp split: sum.splits)

lemma processChunk_entries:
  assumes "processChunk env targetW targetH topK centerCrop urls results0 = Inr results1"
  shows "map imageUrl results1 = map imageUrl results0 @ chunk_order env urls"
    and "list_all (entry_matches env) results0 \<Longrightarrow> list_all (entry_matches env) results1"
proof -
  from processChunk_Inr [OF assms] obtain preds where
    len: "length preds = length (filter (\<lambda>u. \<not> acquisition_fails env u) urls)"
    and res: "results1 = results0 @
             map (\<lambda>u. \<lparr>imageUrl = u,
                         err = (case getImageBuffer env u of Inl e \<Rightarrow> Some e | Inr b \<Rightarrow> None),
                         classesCount = length (classes env), predictions = None\<rparr>)
                 (filter (acquisition_fails env) urls) @
             map (\<lambda>(u, p). \<lparr>imageUrl = u, err = None,
                              classesCount = length (classes env), predictions = Some p\<rparr>)
                 (zip (filter (\<lambda>u. \<not> acquisition_fails env u) urls) preds)"
    by blast
  have "map imageUrl (map (\<lambda>(u, p). \<lparr>imageUrl = u, err = None,
                              classesCount = length (classes env), predictions = Some p\<rparr>)
                 (zip (filter (\<lambda>u. \<not> acquisition_fails env u) urls) preds))
        = map fst (zip (filter (\<lambda>u. \<not> acquisition_fails env u) urls) preds)"
    by (simp add: case_prod_beta)
  also have "\<dots> = filter (\<lambda>u. \<not> acquisition_fails env u) urls"
    using len by simp
  finally show "map imageUrl results1 = map imageUrl results0 @ chunk_order env urls"
    by (simp add: res chunk_order_def comp_def)
  have f: "list_all (entry_matches env)
             (map (\<lambda>u. \<lparr>imageUrl = u,
                         err = (case getImageBuffer env u of Inl e \<Rightarrow> Some e | Inr b \<Rightarrow> None),
                         classesCount = length (classes env), predictions = None\<rparr>)
                 (filter (acquisition_fails env) urls))"
    by (auto simp: list_all_iff entry_matches_def acquisition_fails_def split: sum.splits)
  have o: "list_all (entry_matches env)
             (map (\<lambda>(u, p). \<lparr>imageUrl = u, err = None,
                              classesCount = length (classes env), predictions = Some p\<rparr>)
                 (zip (filter (\<lambda>u. \<not> acquisition_fails env u) urls) preds))"
    by (auto simp: list_all_iff entry_matches_def dest!: set_zip_leftD)
  show "list_all (entry_matches env) results0 \<Longrightarrow> list_all (entry_matches env) results1"
    using f o by (simp add: res)
qed

lemma run_chunks_entries:
  "run_chunks (processChunk env targetW targetH topK centerCrop) chunks results0 = Inr rs \<Longrightarrow>
     map imageUrl rs = map imageUrl results0 @ concat (map (chunk_order env) chunks) \<and>
     (list_all (entry_matches env) results0 \<longrightarrow> list_all (entry_matches env) rs)"
proof (induction chunks arbitrary: results0)
  case Nil
  then show ?case by simp
next
  case (Cons chunk rest)
  from Cons.prems obtain results1 where
    p: "processChunk env targetW targetH topK centerCrop chunk results0 = Inr results1"
    and r: "run_chunks (processChunk env targetW targetH topK centerCrop) rest results1 = Inr rs"
    by (auto split: sum.splits)
  show ?case
    using Cons.IH [OF r] processChunk_entries [OF p] by simp
qed

lemma isOk_run_chunks:
  "isOk (run_chunks (processChunk env targetW targetH topK centerCrop) chunks results0)
     = list_all (\<lambda>chunk. isOk (infer_buffers env targetW targetH topK centerCrop (acquired env chunk)))
         chunks"
proof (induction chunks arbitrary: results0)
  case Nil
  show ?case by simp
next
  case (Cons chunk rest)
  show ?case
  proof (cases "processChunk env targetW targetH topK centerCrop chunk results0")
    case (Inl e)
    then show ?thesis
      using isOk_processChunk [of env targetW targetH topK centerCrop chunk results0] by simp
  next
    case (Inr results1)
    then show ?thesis
      using isOk_processChunk [of env targetW targetH topK centerCrop chunk results0]
        Cons.IH [of results1] by simp
  qed
qed

lemma concat_slices: "0 < b \<Longrightarrow> concat (slices b xs i) = drop i xs"
proof (induction b xs i rule: slices.induct)
  case (1 batchSize xs i)
  show ?case
  proof (cases "i < length xs")
    case True
    have "concat (slices batchSize xs i)
            = take batchSize (drop i xs) @ concat (slices batchSize xs (i + batchSize))"
      using True "1.prems" by (subst slices.simps) simp
    also have "\<dots> = take batchSize (drop i xs) @ drop (i + batchSize) xs"
      using "1.IH" True "1.prems" by simp
    also have "\<dots> = drop i xs"
      by (metis add.commute append_take_drop_id drop_drop)
    finally show ?thesis .
  next
    case False
    then show ?thesis
      by (subst slices.simps) simp
  qed
qed

lemma concat_batch_chunks: "concat (batch_chunks batchSize imageUrls) = imageUrls"
  by (auto simp: batch_chunks_def concat_slices split: option.splits)

lemma mset_chunk_order: "mset (chunk_order env urls) = mset urls"
  by (simp add: chunk_order_def)

lemma mset_concat_chunk_order:
  "mset (concat (map (chunk_order env) chunks)) = mset (concat chunks)"
  by (induction chunks) (simp_all add: mset_chunk_order)

text \<open>
  C1 (as the code has it). A batch call returns a result exactly when the inputs are not
  empty, the model's input shape is known and, for every chunk, resizing and inference
  succeed on the buffers that were acquired (on none of them, when every input of the chunk
  fails): a failed acquisition by itself never aborts the call.
  When it returns, \<open>count\<close> and the length of \<open>results\<close> are the number of inputs, every
  input has exactly one entry, an entry is error-tagged exactly when the acquisition of its
  input fails, and the entries are ordered chunk by chunk, within a chunk the failed inputs
  first and the acquired inputs after them, each group in input order.
\<close>

theorem classifyBatch_results_order:
  "(isOk (classifyBatch env imageUrls topK centerCrop batchSize) \<longleftrightarrow>
      imageUrls \<noteq> [] \<and> input_shape env \<noteq> None \<and>
      list_all (\<lambda>chunk. isOk (infer_buffers env (snd (the (input_shape env))) (fst (the (input_shape env)))
                                  topK centerCrop (acquired env chunk)))
        (batch_chunks batchSize imageUrls)) \<and>
   (\<forall>out. classifyBatch env imageUrls topK centerCrop batchSize = Inr out \<longrightarrow>
      batch_count out = length imageUrls \<and>
      length (results out) = length imageUrls \<and>
      map imageUrl (results out) = concat (map (chunk_order env) (batch_chunks batchSize imageUrls)) \<and>
      mset (map imageUrl (results out)) = mset imageUrls \<and>
      list_all (entry_matches env) (results out))"
proof (intro conjI allI impI)
  show "isOk (classifyBatch env imageUrls topK centerCrop batchSize) \<longleftrightarrow>
      imageUrls \<noteq> [] \<and> input_shape env \<noteq> None \<and>
      list_all (\<lambda>chunk. isOk (infer_buffers env (snd (the (input_shape env))) (fst (the (input_shape env)))
                                  topK centerCrop (acquired env chunk)))
        (batch_chunks batchSize imageUrls)"
  proof (cases "imageUrls = [] \<or> input_shape env = None")
    case True
    then show ?thesis
      by (auto simp: classifyBatch_def)
  next
    case False
    then obtain targetH targetW where sh: "input_shape env = Some (targetH, targetW)"
      by (cases "input_shape env") auto
    have "isOk (classifyBatch env imageUrls topK centerCrop batchSize)
            = isOk (run_chunks (processChunk env targetW targetH topK centerCrop)
                      (batch_chunks batchSize imageUrls) [])"
      using False sh by (simp add: classifyBatch_def split: sum.splits)
    then show ?thesis
      using False sh by (simp add: isOk_run_chunks)
  qed
next
  fix out
  assume a: "classifyBatch env imageUrls topK centerCrop batchSize = Inr out"
  then obtain targetH targetW rs where
    sh: "input_shape env = Some (targetH, targetW)"
    and run: "run_chunks (processChunk env targetW targetH topK centerCrop)
                (batch_chunks batchSize imageUrls) [] = Inr rs"
    and out: "out = \<lparr>batch_count = length imageUrls,
                      batch_classesCount = length (classes env), results = rs\<rparr>"
    by (auto simp: classifyBatch_def split: if_splits option.splits sum.splits prod.splits)
  from run_chunks_entries [OF run]
  have order: "map imageUrl rs = concat (map (chunk_order env) (batch_chunks batchSize imageUrls))"
    and ents: "list_all (entry_matches env) rs"
    by simp_all
  have ms: "mset (map imageUrl rs) = mset imageUrls"
    by (simp only: order mset_concat_chunk_order concat_batch_chunks)
  have "length (map imageUrl rs) = length imageUrls"
    using ms by (metis size_mset)
  then have len: "length rs = length imageUrls"
    by simp
  show "batch_count out = length imageUrls" by (simp add: out)
  show "length (results out) = length imageUrls" by (simp add: out len)
  show "map imageUrl (results out) = concat (map (chunk_order env) (batch_chunks batchSize imageUrls))"
    by (simp add: out order)
  show "mset (map imageUrl (results out)) = mset imageUrls" using ms by (simp add: out)
  show "list_all (entry_matches env) (results out)" by (simp add: out ents)
qed

theorem classifyBatch_results_order_witness:
  "(case classifyBatch example_env [Buffer [1], Text [], Buffer [2]] None True (Some 2) of
      Inl e \<Rightarrow> False
    | Inr out \<Rightarrow>
        batch_count out = 3 \<and> length (results out) = 3 \<and>
        map imageUrl (results out) = [Text [], Buffer [1], Buffer [2]] \<and>
        list_all (entry_matches example_env) (results out))"
proof -
  let ?urls = "[Buffer [1], Text [], Buffer [2]]"
  have ok: "isOk (classifyBatch example_env ?urls None True (Some 2))"
    by code_simp
  then obtain out where o: "classifyBatch example_env ?urls None True (Some 2) = Inr out"
    by (cases "classifyBatch example_env ?urls None True (Some 2)") auto
  have ch: "concat (map (chunk_order example_env) (batch_chunks (Some 2) ?urls))
              = [Text [], Buffer [1], Buffer [2]]"
    by code_simp
  from classifyBatch_results_order [of example_env ?urls None True "Some 2"] o
  have "batch_count out = length ?urls" "length (results out) = length ?urls"
    "map imageUrl (results out) = concat (map (chunk_order example_env) (batch_chunks (Some 2) ?urls))"
    "list_all (entry_matches example_env) (results out)"
    by blast+
  then show ?thesis
    using o ch by simp
qed

theorem classifyBatch_not_index_aligned:
  "map_sum id (map imageUrl \<circ> results)
     (classifyBatch example_env [Buffer [1], Text []] None True None)
   = Inr [Text [], Buffer [1]]"
  by code_simp


section \<open>Properties of media acquisition\<close>

lemma run_cleanup_idem:
  "run_cleanup c w = (Inr u, w') \<Longrightarrow> run_cleanup c w' = (Inr (), w')"
  by (auto simp: run_cleanup_def fs_rm_def split: option.splits if_splits)

lemma run_cleanup_removes:
  "run_cleanup (Some d) w = (Inr u, w') \<Longrightarrow> d \<notin> set (tmp_dirs w')"
  by (auto simp: run_cleanup_def fs_rm_def split: if_splits)

lemma writeTemp_owns:
  "writeTemp buffer w = (Inr l, w1) \<Longrightarrow>
     \<exists>d. loc_cleanup l = Some d \<and> loc_path l = TempInput d \<and> d \<in> set (tmp_dirs w1)"
  by (auto simp: writeTemp_def fs_mkdtemp_def fs_writeFile_def split: if_splits prod.splits sum.splits)

lemma ensureLocalPathWithCleanup_owns:
  "ensureLocalPathWithCleanup env src w0 = (Inr l, w1) \<Longrightarrow> loc_cleanup l = Some d \<Longrightarrow>
     loc_path l = TempInput d \<and> d \<in> set (tmp_dirs w1)"
  by (auto simp: ensureLocalPathWithCleanup_def
           split: media.splits if_splits sum.splits option.splits prod.splits
           dest: writeTemp_owns)

text \<open>
  C9. For a resolved media produced by \<open>ensureLocalPathWithCleanup\<close>, once an invocation
  of its cleanup has completed, a further invocation completes without throwing and
  changes nothing; a cleanup that owns a temporary directory owns one that existed after
  the acquisition and is gone after the first completed invocation.
\<close>

theorem cleanup_second_call_is_noop:
  assumes "ensureLocalPathWithCleanup env src w0 = (Inr l, w1)"
    and "run_cleanup (loc_cleanup l) w = (Inr (), w')"
  shows "run_cleanup (loc_cleanup l) w' = (Inr (), w') \<and>
         (\<forall>d. loc_cleanup l = Some d \<longrightarrow> d \<in> set (tmp_dirs w1) \<and> d \<notin> set (tmp_dirs w'))"
  using assms run_cleanup_idem run_cleanup_removes ensureLocalPathWithCleanup_owns
  by metis

theorem cleanup_second_call_is_noop_witness:
  "fst (ensureLocalPathWithCleanup example_env (Buffer [1, 2, 3]) empty_fs)
     = Inr \<lparr>loc_path = TempInput 0, loc_cleanup = Some 0\<rparr> \<and>
   run_cleanup (Some 0) (snd (ensureLocalPathWithCleanup example_env (Buffer [1, 2, 3]) empty_fs))
     = (Inr (), empty_fs\<lparr>next_dir := 1\<rparr>) \<and>
   run_cleanup (Some 0) (empty_fs\<lparr>next_dir := 1\<rparr>) = (Inr (), empty_fs\<lparr>next_dir := 1\<rparr>)"
proof -
  let ?l = "\<lparr>loc_path = TempInput 0, loc_cleanup = Some 0\<rparr>"
  let ?w1 = "snd (ensureLocalPathWithCleanup example_env (Buffer [1, 2, 3]) empty_fs)"
  have a: "fst (ensureLocalPathWithCleanup example_env (Buffer [1, 2, 3]) empty_fs) = Inr ?l"
    by code_simp
  then have acq: "ensureLocalPathWithCleanup example_env (Buffer [1, 2, 3]) empty_fs = (Inr ?l, ?w1)"
    by (simp add: prod_eq_iff)
  have first: "run_cleanup (loc_cleanup ?l) ?w1 = (Inr (), empty_fs\<lparr>next_dir := 1\<rparr>)"
    by code_simp
  from cleanup_second_call_is_noop [OF acq first]
  have "run_cleanup (loc_cleanup ?l) (empty_fs\<lparr>next_dir := 1\<rparr>) = (Inr (), empty_fs\<lparr>next_dir := 1\<rparr>)"
    by blast
  then show ?thesis
    using a first by simp
qed


section \<open>Properties of video classification: cleanup\<close>

lemma run_cleanup_again: "run_cleanup c (snd (run_cleanup c w)) = run_cleanup c w"
  by (auto simp: run_cleanup_def fs_rm_def split: option.splits)


lemma cleanups_logged [simp]:
  "cleanups (logged e s) = (if is_cleanup e then Suc (cleanups s) else cleanups s)"
  by (simp add: cleanups_def logged_def)

lemma cleanups_update [simp]:
  "cleanups (s\<lparr>world := w\<rparr>) = cleanups s"
  "cleanups (s\<lparr>cleanup_var := c\<rparr>) = cleanups s"
  "cleanups (s\<lparr>tempCleaned := b\<rparr>) = cleanups s"
  by (simp_all add: cleanups_def)

lemma logged_fields [simp]:
  "tempCleaned (logged e s) = tempCleaned s"
  "cleanup_var (logged e s) = cleanup_var s"
  "world (logged e s) = world s"
  "calls (logged e s) = calls s @ [e]"
  by (simp_all add: logged_def)

lemma acquire_ram_frame:
  "acquire_ram env videoUrl maxBytes s = (r, s1) \<Longrightarrow>
     cleanup_var s1 = cleanup_var s \<and> tempCleaned s1 = tempCleaned s \<and> world s1 = world s \<and>
     (\<exists>rest. calls s1 = calls s @ rest \<and> filter is_cleanup rest = [])"
  by (auto simp: acquire_ram_def Let_def split: sum.splits)

lemma fallback_to_disk_frame:
  "fallback_to_disk env videoUrl stamps conc sizeBytes s = (r, s1) \<Longrightarrow>
     cleanup_var s1 = cleanup_var s \<and> tempCleaned s1 = tempCleaned s \<and>
     (\<exists>rest. calls s1 = calls s @ rest \<and> filter is_cleanup rest = [])"
  by (auto simp: fallback_to_disk_def Let_def split: sum.splits prod.splits)

lemma frames_ram_frame:
  assumes "frames_ram env videoUrl frames turboMode ec maxBytes s = (r, s1)"
  shows "cleanup_var s1 = cleanup_var s \<and> tempCleaned s1 = tempCleaned s \<and>
         (\<exists>rest. calls s1 = calls s @ rest \<and> filter is_cleanup rest = [])"
proof -
  obtain ra sa where a: "acquire_ram env videoUrl maxBytes s = (ra, sa)"
    by (cases "acquire_ram env videoUrl maxBytes s")
  from acquire_ram_frame [OF a] obtain rest where
    ca: "cleanup_var sa = cleanup_var s" "tempCleaned sa = tempCleaned s"
    and cr: "calls sa = calls s @ rest" "filter is_cleanup rest = []"
    by blast
  have fb: "\<And>stamps conc sz rf sf.
      fallback_to_disk env videoUrl stamps conc sz (logged EvExtractAuto sa) = (rf, sf)
        \<Longrightarrow> cleanup_var sf = cleanup_var s \<and> tempCleaned sf = tempCleaned s \<and>
            (\<exists>rest. calls sf = calls s @ rest \<and> filter is_cleanup rest = [])"
  proof -
    fix stamps conc sz rf sf
    assume "fallback_to_disk env videoUrl stamps conc sz (logged EvExtractAuto sa) = (rf, sf)"
    from fallback_to_disk_frame [OF this] obtain rest' where
      "cleanup_var sf = cleanup_var s" "tempCleaned sf = tempCleaned s"
      "calls sf = calls s @ (rest @ [EvExtractAuto] @ rest')" "filter is_cleanup rest' = []"
      using ca cr by auto
    then show "cleanup_var sf = cleanup_var s \<and> tempCleaned sf = tempCleaned s \<and>
            (\<exists>rest. calls sf = calls s @ rest \<and> filter is_cleanup rest = [])"
      using cr(2) by (intro conjI exI [of _ "rest @ [EvExtractAuto] @ rest'"]) simp_all
  qed
  show ?thesis
    using assms ca cr unfolding frames_ram_def a Let_def
    by (auto split: sum.splits prod.splits if_splits dest: fb)
qed

lemma frames_disk_frame:
  assumes "frames_disk env videoUrl frames turboMode ec maxBytes s = (r, s1)"
  shows "tempCleaned s1 = tempCleaned s \<and>
         (\<exists>rest. calls s1 = calls s @ rest \<and> filter is_cleanup rest = []) \<and>
         (case ensureLocalPathWithCleanup env videoUrl (world s) of
            (Inl e, w) \<Rightarrow> r = Inl e \<and> world s1 = w \<and> cleanup_var s1 = cleanup_var s
          | (Inr l, w) \<Rightarrow> world s1 = w \<and> cleanup_var s1 = loc_cleanup l)"
  using assms
  by (auto simp: frames_disk_def acquire_disk_def Let_def split: sum.splits prod.splits if_splits)

lemma frames_stage_frame:
  assumes "frames_stage env ioMode videoUrl frames opts s = (r, s1)"
  shows "tempCleaned s1 = tempCleaned s"
    and "\<exists>rest. calls s1 = calls s @ rest \<and> filter is_cleanup rest = []"
    and "cleanup_var s1 =
           (case ioMode of
              Ram \<Rightarrow> cleanup_var s
            | Disk \<Rightarrow> (case ensureLocalPathWithCleanup env videoUrl (world s) of
                         (Inl e, w) \<Rightarrow> cleanup_var s
                       | (Inr l, w) \<Rightarrow> loc_cleanup l))"
    and "ioMode = Disk \<Longrightarrow> world s1 = snd (ensureLocalPathWithCleanup env videoUrl (world s))"
proof -
  show "tempCleaned s1 = tempCleaned s"
    using assms by (cases ioMode) (auto simp: frames_stage_def dest: frames_ram_frame frames_disk_frame)
  show "\<exists>rest. calls s1 = calls s @ rest \<and> filter is_cleanup rest = []"
    using assms by (cases ioMode) (auto simp: frames_stage_def dest: frames_ram_frame frames_disk_frame)
  show "cleanup_var s1 =
           (case ioMode of
              Ram \<Rightarrow> cleanup_var s
            | Disk \<Rightarrow> (case ensureLocalPathWithCleanup env videoUrl (world s) of
                         (Inl e, w) \<Rightarrow> cleanup_var s
                       | (Inr l, w) \<Rightarrow> loc_cleanup l))"
    using assms
    by (cases ioMode)
       (auto simp: frames_stage_def split: prod.splits sum.splits
             dest: frames_ram_frame dest!: frames_disk_frame)
  show "ioMode = Disk \<Longrightarrow> world s1 = snd (ensureLocalPathWithCleanup env videoUrl (world s))"
    using assms
    by (auto simp: frames_stage_def split: prod.splits sum.splits dest!: frames_disk_frame)
qed

lemma finally_cleanup_eq:
  "finally_cleanup s =
     (logged (EvCleanup (cleanup_var s) (isOk (fst (run_cleanup (cleanup_var s) (world s)))))
        (s\<lparr>world := snd (run_cleanup (cleanup_var s) (world s))\<rparr>))
     \<lparr>tempCleaned := isOk (fst (run_cleanup (cleanup_var s) (world s))) \<or> tempCleaned s\<rparr>"
  by (auto simp: finally_cleanup_def logged_def split: sum.splits prod.splits)

lemma finish_eq:
  "finish env videoUrl frames turboMode maxBytes k ex acc s = (r, s1) \<Longrightarrow>
     s1 = (logged (EvCleanup (cleanup_var s) (isOk r))
             (s\<lparr>world := snd (run_cleanup (cleanup_var s) (world s))\<rparr>))
          \<lparr>tempCleaned := isOk r \<or> tempCleaned s\<rparr> \<and>
     isOk r = isOk (fst (run_cleanup (cleanup_var s) (world s)))"
  by (auto simp: finish_def Let_def logged_def split: sum.splits prod.splits)

lemma classifyVideo_exit:
  assumes run: "classifyVideo env ioMode videoUrl opts s = (r, s')"
    and ent: "enters_try env videoUrl opts"
    and fr: "with_default (Num 10) (opt_frames opts) = Num frames"
    and st: "frames_stage env ioMode videoUrl frames opts (s\<lparr>cleanup_var := None, tempCleaned := False\<rparr>)
               = (rf, sf)"
  shows "cleanup_var s' = cleanup_var sf"
    and "world s' = snd (run_cleanup (cleanup_var sf) (world sf))"
    and "tempCleaned s' = isOk (fst (run_cleanup (cleanup_var sf) (world sf)))"
    and "\<exists>n. calls s' = calls sf @ replicate n (EvCleanup (cleanup_var sf) (tempCleaned s')) \<and>
             (n = 1 \<or> n = 2) \<and> (isOk r \<longrightarrow> n = 2)"
proof -
  let ?s0 = "s\<lparr>cleanup_var := None, tempCleaned := False\<rparr>"
  let ?c = "cleanup_var sf"
  let ?ok = "isOk (fst (run_cleanup ?c (world sf)))"
  let ?w = "snd (run_cleanup ?c (world sf))"
  from ent fr obtain targetH targetW ffmpegPath where
    pos: "0 < frames"
    and sh: "input_shape env = Some (targetH, targetW)"
    and ff: "ffmpeg_path env = Inr ffmpegPath"
    and nf: "\<not> is_falsy videoUrl"
    unfolding enters_try_def
    by (cases "input_shape env"; cases "ffmpeg_path env"; auto)
  obtain s1 where
    body: "video_body env ioMode targetW targetH videoUrl frames opts ?s0 = (r, s1)"
    and fin: "s' = finally_cleanup s1"
    using run fr pos sh ff nf
    by (auto simp: classifyVideo_def split: prod.splits)
  have tc: "\<not> tempCleaned sf"
    using frames_stage_frame(1) [OF st] by simp
  consider (stop) "s1 = sf" "\<not> isOk r"
    | (finished) ex acc where "finish env videoUrl frames (opt_turboMode opts)
                 (with_default default_maxBytes (opt_maxBytes opts)) (top_k env (opt_topK opts))
                 ex acc sf = (r, s1)"
    using body unfolding video_body_def st
    by (auto split: sum.splits)
  then have "cleanup_var s' = ?c \<and> world s' = ?w \<and> tempCleaned s' = ?ok \<and>
      (\<exists>n. calls s' = calls sf @ replicate n (EvCleanup ?c ?ok) \<and> (n = 1 \<or> n = 2) \<and> (isOk r \<longrightarrow> n = 2))"
  proof cases
    case stop
    have "calls s' = calls sf @ replicate 1 (EvCleanup ?c ?ok)"
      unfolding fin stop(1) finally_cleanup_eq by simp
    then show ?thesis
      using stop(2) tc unfolding fin stop(1) finally_cleanup_eq
      by (intro conjI exI [of _ 1]) simp_all
  next
    case finished
    note f = finish_eq [OF finished]
    have ok: "isOk r = ?ok"
      using f by simp
    have s1: "cleanup_var s1 = ?c" "world s1 = ?w" "tempCleaned s1 = ?ok"
      "calls s1 = calls sf @ [EvCleanup ?c ?ok]"
      using f tc by simp_all
    have "calls s' = calls sf @ replicate 2 (EvCleanup ?c ?ok)"
      unfolding fin finally_cleanup_eq
      by (simp add: s1 run_cleanup_again numeral_2_eq_2)
    then show ?thesis
      unfolding fin finally_cleanup_eq
      by (intro conjI exI [of _ 2]) (simp_all add: s1 run_cleanup_again)
  qed
  then show "cleanup_var s' = cleanup_var sf"
    and "world s' = snd (run_cleanup (cleanup_var sf) (world sf))"
    and "tempCleaned s' = isOk (fst (run_cleanup (cleanup_var sf) (world sf)))"
    and "\<exists>n. calls s' = calls sf @ replicate n (EvCleanup (cleanup_var sf) (tempCleaned s')) \<and>
             (n = 1 \<or> n = 2) \<and> (isOk r \<longrightarrow> n = 2)"
    by auto
qed




text \<open>
  Values of \<open>videoUrl\<close> that are not media: a falsy one (\<open>0\<close>, \<open>false\<close>, \<open>NaN\<close>) stops at
  \<open>!videoUrl\<close> before the \<open>try\<close> block, with no cleanup; a truthy one enters the \<open>try\<close>
  block, fails in the acquisition and meets the one cleanup of the \<open>finally\<close> block.
\<close>

lemma not_media_examples:
  "classifyVideo example_env Disk (NotMedia False) default_opts init_state
     = (Inl VideoUrlRequired, init_state) \<and>
   map_prod id calls (classifyVideo example_env Disk (NotMedia True) default_opts init_state)
     = (Inl InvalidSource, [EvEnsureLocalPath, EvCleanup None True]) \<and>
   classifyVideo example_env Ram Missing default_opts init_state
     = (Inl VideoUrlRequired, init_state) \<and>
   classifyVideo example_env Ram (Text []) default_opts init_state
     = (Inl VideoUrlRequired, init_state)"
  by code_simp

lemma cleanup_failure_example:
  "map_prod id (\<lambda>s. (calls s, tempCleaned s, tmp_dirs (world s)))
     (classifyVideo example_env Disk (Buffer [1, 2, 3]) default_opts
        (init_state\<lparr>world := empty_fs\<lparr>locked := [0]\<rparr>\<rparr>))
   = (Inl (Errno ''EBUSY''),
      [EvEnsureLocalPath, EvProbeDuration, EvExtractFrames (TempInput 0),
       EvCleanup (Some 0) False, EvCleanup (Some 0) False],
      False, [0])"
  by code_simp

text \<open>
  The \<open>io.tempCleaned\<close> of a returned result is the value of the local before the cleanup
  ran: it is always false.
\<close>

lemma finish_Inr:
  assumes "finish env videoUrl frames turboMode maxBytes k ex (frameCount, agg, results0) s = (Inr out, s1)"
  shows "v_io out = \<lparr>io_mode_used = ex_usedMode ex, io_fallbackToDisk = ex_fallbackToDisk ex,
                      io_tempCleaned = tempCleaned s, io_sizeBytes = ex_sizeBytes ex,
                      io_maxBytes = maxBytes\<rparr>"
    and "v_results out = results0"
    and "v_aggregate out = overall_preds env k frameCount agg"
    and "\<exists>rest. calls s1 = calls s @ rest"
  using assms by (auto simp: finish_def Let_def split: sum.splits prod.splits)

lemma classifyVideo_body:
  assumes ent: "enters_try env videoUrl opts"
    and fr: "with_default (Num 10) (opt_frames opts) = Num frames"
    and sh: "input_shape env = Some (targetH, targetW)"
  shows "classifyVideo env ioMode videoUrl opts s =
           (case video_body env ioMode targetW targetH videoUrl frames opts
                   (s\<lparr>cleanup_var := None, tempCleaned := False\<rparr>) of
              (r, s1) \<Rightarrow> (r, finally_cleanup s1))"
proof -
  from ent fr obtain ffmpegPath where
    "0 < frames" "ffmpeg_path env = Inr ffmpegPath" "\<not> is_falsy videoUrl"
    unfolding enters_try_def
    by (cases "ffmpeg_path env"; auto)
  then show ?thesis
    using fr sh by (simp add: classifyVideo_def)
qed

lemma classifyVideo_Inr:
  assumes "classifyVideo env ioMode videoUrl opts s = (Inr out, s')"
  obtains frames targetH targetW ex sf frameCount agg results0 s1 where
    "with_default (Num 10) (opt_frames opts) = Num frames"
    "input_shape env = Some (targetH, targetW)"
    "frames_stage env ioMode videoUrl frames opts (s\<lparr>cleanup_var := None, tempCleaned := False\<rparr>)
       = (Inr ex, sf)"
    "process_frames env targetW targetH opts ex = Inr (frameCount, agg, results0)"
    "finish env videoUrl frames (opt_turboMode opts)
       (with_default default_maxBytes (opt_maxBytes opts)) (top_k env (opt_topK opts))
       ex (frameCount, agg, results0) sf = (Inr out, s1)"
    "s' = finally_cleanup s1"
proof -
  from assms obtain frames targetH targetW s1 where
    fr: "with_default (Num 10) (opt_frames opts) = Num frames"
    and sh: "input_shape env = Some (targetH, targetW)"
    and body: "video_body env ioMode targetW targetH videoUrl frames opts
                 (s\<lparr>cleanup_var := None, tempCleaned := False\<rparr>) = (Inr out, s1)"
    and fin: "s' = finally_cleanup s1"
    by (auto simp: classifyVideo_def split: if_splits jsnum.splits option.splits sum.splits prod.splits)
  from body obtain ex sf acc where
    st: "frames_stage env ioMode videoUrl frames opts (s\<lparr>cleanup_var := None, tempCleaned := False\<rparr>)
          = (Inr ex, sf)"
    and pr: "process_frames env targetW targetH opts ex = Inr acc"
    and fi: "finish env videoUrl frames (opt_turboMode opts)
       (with_default default_maxBytes (opt_maxBytes opts)) (top_k env (opt_topK opts))
       ex acc sf = (Inr out, s1)"
    unfolding video_body_def by (auto split: sum.splits prod.splits)
  obtain frameCount agg results0 where acc: "acc = (frameCount, agg, results0)"
    by (cases acc) auto
  show ?thesis
    using that [OF fr sh st pr [unfolded acc] fi [unfolded acc] fin] .
qed

lemma returned_tempCleaned_is_false:
  assumes "classifyVideo env ioMode videoUrl opts s = (Inr out, s')"
  shows "\<not> io_tempCleaned (v_io out)"
proof -
  from assms obtain frames ex sf frameCount agg results0 s1 where
    st: "frames_stage env ioMode videoUrl frames opts (s\<lparr>cleanup_var := None, tempCleaned := False\<rparr>)
           = (Inr ex, sf)"
    and fi: "finish env videoUrl frames (opt_turboMode opts)
       (with_default default_maxBytes (opt_maxBytes opts)) (top_k env (opt_topK opts))
       ex (frameCount, agg, results0) sf = (Inr out, s1)"
    by (rule classifyVideo_Inr)
  have "\<not> tempCleaned sf"
    using frames_stage_frame(1) [OF st] by simp
  then show ?thesis
    using finish_Inr(1) [OF fi] by simp
qed

text \<open>
  A call returns a result exactly when the acquisition and extraction stage and the frame
  loop succeed and the cleanup before \<open>return out\<close> completes.
\<close>

lemma classifyVideo_returns_iff:
  assumes ent: "enters_try env videoUrl opts"
    and fr: "with_default (Num 10) (opt_frames opts) = Num frames"
    and sh: "input_shape env = Some (targetH, targetW)"
    and st: "frames_stage env ioMode videoUrl frames opts (s\<lparr>cleanup_var := None, tempCleaned := False\<rparr>)
               = (rf, sf)"
  shows "isOk (fst (classifyVideo env ioMode videoUrl opts s)) \<longleftrightarrow>
           (\<exists>ex. rf = Inr ex \<and> isOk (process_frames env targetW targetH opts ex)) \<and>
           isOk (fst (run_cleanup (cleanup_var sf) (world sf)))"
  unfolding classifyVideo_body [OF ent fr sh] video_body_def st
  by (auto simp: finish_def Let_def split: sum.splits prod.splits)


section \<open>Properties of video classification: the size ceiling\<close>

lemma ram_size_exceeded_fails_fast:
  assumes "enters_try env videoUrl opts"
    and "getMediaBuffer env videoUrl = Inr mediaBuf"
    and "with_default default_maxBytes (opt_maxBytes opts) = maxBytes"
    and "maxBytes \<noteq> 0" and "maxBytes < int (length mediaBuf)"
  shows "fst (classifyVideo env Ram videoUrl opts s) = Inl (MediaExceedsMaxBytes (length mediaBuf) maxBytes) \<and>
         calls (snd (classifyVideo env Ram videoUrl opts s))
           = calls s @ [EvGetMediaBuffer, EvCleanup None True]"
proof -
  from assms(1) obtain frames targetH targetW ffmpegPath where
    "with_default (Num 10) (opt_frames opts) = Num frames" "0 < frames"
    "input_shape env = Some (targetH, targetW)" "ffmpeg_path env = Inr ffmpegPath"
    "\<not> is_falsy videoUrl"
    unfolding enters_try_def
    by (cases "with_default (Num 10) (opt_frames opts)"; cases "input_shape env";
        cases "ffmpeg_path env"; auto)
  then show ?thesis
    using assms(2-5)
    by (simp add: classifyVideo_def video_body_def frames_stage_def frames_ram_def acquire_ram_def
          size_check_def finally_cleanup_def run_cleanup_def Let_def)
qed

text \<open>
  C3. In disk mode a media of 3 bytes with \<open>maxBytes = 2\<close> is not rejected: the error of
  the size check is swallowed by the enclosing \<open>try { } catch {}\<close>, the duration is probed,
  the frames are extracted and the call returns a result with \<open>io.sizeBytes = 3\<close>. In
  memory mode the same request fails with the size error before any probe
  (\<open>ram_size_exceeded_fails_fast\<close>).
\<close>

theorem disk_mode_ignores_size_ceiling:
  "map_prod (map_sum id (io_sizeBytes \<circ> v_io)) calls
     (classifyVideo example_env Disk (Buffer [1, 2, 3]) (default_opts\<lparr>opt_maxBytes := Some 2\<rparr>)
        init_state)
   = (Inr 3, [EvEnsureLocalPath, EvProbeDuration, EvExtractFrames (TempInput 0),
              EvCleanup (Some 0) True, EvCleanup (Some 0) True])"
  by code_simp

lemma ram_mode_enforces_size_ceiling_example:
  "map_prod (map_sum id (io_sizeBytes \<circ> v_io)) calls
     (classifyVideo example_env Ram (Buffer [1, 2, 3]) (default_opts\<lparr>opt_maxBytes := Some 2\<rparr>)
        init_state)
   = (Inl (MediaExceedsMaxBytes 3 2), [EvGetMediaBuffer, EvCleanup None True])"
  by code_simp


section \<open>Properties of the frame loop\<close>

lemma sequential_frames_count:
  "sequential_frames env targetW targetH centerCrop k stamps bufs i (fc, agg, res) = Inr (fc', agg', res')
     \<Longrightarrow> fc' = fc + length bufs \<and> length res' = length res + length bufs"
proof (induction bufs arbitrary: i fc agg res)
  case Nil
  then show ?case by simp
next
  case (Cons buf rest)
  show ?case
    using Cons.prems by (auto split: sum.splits list.splits dest!: Cons.IH)
qed

text \<open>
  \<open>frameCount\<close> is the number of frame entries of the result; without turbo mode it is the
  number of extracted frames.
\<close>

lemma process_frames_count:
  assumes "process_frames env targetW targetH opts ex = Inr (frameCount, agg, results0)"
  shows "frameCount = length results0"
    and "\<not> opt_turboMode opts \<Longrightarrow> length results0 = length (ex_frameBuffers ex)"
proof -
  show "frameCount = length results0"
  proof (cases "opt_turboMode opts")
    case True
    then show ?thesis
      using assms by (auto simp: process_frames_def turbo_frames_def split: sum.splits)
  next
    case False
    then show ?thesis
      using assms sequential_frames_count [of env targetW targetH "opt_centerCrop opts"
          "top_k env (opt_topK opts)" "ex_stamps ex" "ex_frameBuffers ex" 0 0
          "replicate (length (classes env)) (Num 0)" "[]" frameCount agg results0]
      by (simp add: process_frames_def)
  qed
  show "\<not> opt_turboMode opts \<Longrightarrow> length results0 = length (ex_frameBuffers ex)"
    using assms sequential_frames_count [of env targetW targetH "opt_centerCrop opts"
        "top_k env (opt_topK opts)" "ex_stamps ex" "ex_frameBuffers ex" 0 0
        "replicate (length (classes env)) (Num 0)" "[]" frameCount agg results0]
    by (simp add: process_frames_def)
qed


section \<open>Properties of video classification: the disk fallback\<close>

text \<open>
  Memory mode on a media that is acquired within the size ceiling, has a positive duration
  and yields no frame in memory: what the acquisition and extraction stage does when the
  media resolves to a local path, and when it does not.
\<close>

lemma frames_ram_zero:
  assumes buf: "getMediaBuffer env videoUrl = Inr mediaBuf"
    and size: "size_check maxBytes (length mediaBuf) = Inr ()"
    and probe: "probe_buffer env mediaBuf = Some d" "0 < d"
    and zero: "extract_auto env mediaBuf \<lfloor>frames\<rfloor> d = Inr []"
    and acq: "ensureLocalPathWithCleanup env videoUrl (world s) = (Inr l, w)"
  shows "frames_ram env videoUrl frames turboMode ec maxBytes s =
           (case run_cleanup (loc_cleanup l) w of
              (Inl e, w') \<Rightarrow> Inl e
            | (Inr u, w') \<Rightarrow>
                (case extract_frames env (loc_path l)
                        (safeTimestamps d (sampleTimestamps d (of_int \<lfloor>frames\<rfloor>)) None)
                        (extractConc env turboMode ec) of
                   Inl e \<Rightarrow> Inl e
                 | Inr frameBuffers \<Rightarrow>
                     Inr \<lparr>ex_frameBuffers = frameBuffers,
                          ex_stamps = safeTimestamps d (sampleTimestamps d (of_int \<lfloor>frames\<rfloor>)) None,
                          ex_usedMode = Disk, ex_fallbackToDisk = True,
                          ex_sizeBytes = (case fs_stat_size env (loc_path l) w of
                                            None \<Rightarrow> length mediaBuf | Some n \<Rightarrow> n)\<rparr>),
            s\<lparr>world := snd (run_cleanup (loc_cleanup l) w),
              calls := calls s @ [EvGetMediaBuffer, EvProbeDuration, EvExtractAuto, EvEnsureLocalPath,
                                  EvExtractFrames (loc_path l),
                                  EvLocCleanup (loc_cleanup l)
                                    (isOk (fst (run_cleanup (loc_cleanup l) w)))]\<rparr>)"
  using assms
  by (auto simp: frames_ram_def acquire_ram_def sample_stamps_def fallback_to_disk_def Let_def
                 logged_def
           split: sum.splits prod.splits)

lemma frames_ram_zero_unresolved:
  assumes buf: "getMediaBuffer env videoUrl = Inr mediaBuf"
    and size: "size_check maxBytes (length mediaBuf) = Inr ()"
    and probe: "probe_buffer env mediaBuf = Some d" "0 < d"
    and zero: "extract_auto env mediaBuf \<lfloor>frames\<rfloor> d = Inr []"
    and acq: "ensureLocalPathWithCleanup env videoUrl (world s) = (Inl e, w)"
  shows "frames_ram env videoUrl frames turboMode ec maxBytes s =
           (Inl e,
            s\<lparr>world := w,
              calls := calls s @ [EvGetMediaBuffer, EvProbeDuration, EvExtractAuto,
                                  EvEnsureLocalPath]\<rparr>)"
  using assms
  by (auto simp: frames_ram_def acquire_ram_def sample_stamps_def fallback_to_disk_def Let_def
                 logged_def
           split: sum.splits prod.splits)

text \<open>
  C4. In memory mode, when the checks pass, the media is acquired within the size ceiling,
  its duration is positive and the in-memory extraction yields zero frames, the
  orchestrator resolves the media to a local path again. When that fails the call throws
  that error. When it succeeds, \<open>extractFrames\<close> runs on that path with the sampled
  timestamps and \<open>loc.cleanup()\<close> releases the path once, whatever the extraction did; the
  call returns a result exactly when that cleanup completes, the disk extraction delivers
  frames and the frame loop accepts them. Every result it returns has \<open>io.mode = 'disk'\<close>,
  \<open>io.fallbackToDisk = true\<close>, the size of the file on disk, and the frame entries and the
  aggregate that the frame loop computes from the frames of the disk extraction (without
  turbo mode, one entry per frame).
\<close>

theorem ram_zero_frames_falls_back_to_disk:
  assumes run: "classifyVideo env Ram videoUrl opts s = (r, s')"
    and ent: "enters_try env videoUrl opts"
    and fr: "with_default (Num 10) (opt_frames opts) = Num frames"
    and sh: "input_shape env = Some (targetH, targetW)"
    and buf: "getMediaBuffer env videoUrl = Inr mediaBuf"
    and size: "size_check (with_default default_maxBytes (opt_maxBytes opts)) (length mediaBuf) = Inr ()"
    and probe: "probe_buffer env mediaBuf = Some d" "0 < d"
    and zero: "extract_auto env mediaBuf \<lfloor>frames\<rfloor> d = Inr []"
    and stamps: "stamps = safeTimestamps d (sampleTimestamps d (of_int \<lfloor>frames\<rfloor>)) None"
    and conc: "conc = extractConc env (opt_turboMode opts) (opt_extractionConcurrency opts)"
  shows
    "(case ensureLocalPathWithCleanup env videoUrl (world s) of
        (Inl e, w) \<Rightarrow>
          r = Inl e \<and> world s' = w \<and>
          calls s' = calls s @ [EvGetMediaBuffer, EvProbeDuration, EvExtractAuto, EvEnsureLocalPath,
                                EvCleanup None True]
      | (Inr l, w) \<Rightarrow>
          (\<exists>n. calls s' = calls s @ [EvGetMediaBuffer, EvProbeDuration, EvExtractAuto, EvEnsureLocalPath,
                                      EvExtractFrames (loc_path l),
                                      EvLocCleanup (loc_cleanup l)
                                        (isOk (fst (run_cleanup (loc_cleanup l) w)))]
                                   @ replicate n (EvCleanup None True) \<and>
               (n = 1 \<or> n = 2)) \<and>
          world s' = snd (run_cleanup (loc_cleanup l) w) \<and>
          (isOk r \<longleftrightarrow>
             isOk (fst (run_cleanup (loc_cleanup l) w)) \<and>
             (\<exists>frameBuffers.
                extract_frames env (loc_path l) stamps conc = Inr frameBuffers \<and>
                isOk (process_frames env targetW targetH opts
                        \<lparr>ex_frameBuffers = frameBuffers, ex_stamps = stamps, ex_usedMode = Disk,
                         ex_fallbackToDisk = True,
                         ex_sizeBytes = (case fs_stat_size env (loc_path l) w of
                                           None \<Rightarrow> length mediaBuf | Some n \<Rightarrow> n)\<rparr>))) \<and>
          (\<forall>out. r = Inr out \<longrightarrow>
             io_mode_used (v_io out) = Disk \<and> io_fallbackToDisk (v_io out) \<and>
             io_sizeBytes (v_io out) = (case fs_stat_size env (loc_path l) w of
                                          None \<Rightarrow> length mediaBuf | Some n \<Rightarrow> n) \<and>
             (\<exists>frameBuffers frameCount agg.
                extract_frames env (loc_path l) stamps conc = Inr frameBuffers \<and>
                process_frames env targetW targetH opts
                  \<lparr>ex_frameBuffers = frameBuffers, ex_stamps = stamps, ex_usedMode = Disk,
                   ex_fallbackToDisk = True,
                   ex_sizeBytes = (case fs_stat_size env (loc_path l) w of
                                     None \<Rightarrow> length mediaBuf | Some n \<Rightarrow> n)\<rparr>
                  = Inr (frameCount, agg, v_results out) \<and>
                v_aggregate out = overall_preds env (top_k env (opt_topK opts)) frameCount agg \<and>
                (\<not> opt_turboMode opts \<longrightarrow> length (v_results out) = length frameBuffers))))"
proof (cases "ensureLocalPathWithCleanup env videoUrl (world s)")
  case (Pair a w)
  let ?s0 = "s\<lparr>cleanup_var := None, tempCleaned := False\<rparr>"
  have acq0: "ensureLocalPathWithCleanup env videoUrl (world ?s0) = (a, w)"
    using Pair by simp
  show ?thesis
  proof (cases a)
    case (Inl e)
    have st: "frames_stage env Ram videoUrl frames opts ?s0 =
                (Inl e, ?s0\<lparr>world := w,
                          calls := calls ?s0 @ [EvGetMediaBuffer, EvProbeDuration, EvExtractAuto,
                                                EvEnsureLocalPath]\<rparr>)"
      unfolding frames_stage_def
      using frames_ram_zero_unresolved [OF buf size probe zero acq0 [unfolded Inl]] by simp
    have "r = Inl e \<and> world s' = w \<and>
          calls s' = calls s @ [EvGetMediaBuffer, EvProbeDuration, EvExtractAuto, EvEnsureLocalPath,
                                EvCleanup None True]"
      using run unfolding classifyVideo_body [OF ent fr sh] video_body_def st
      by (auto simp: finally_cleanup_eq run_cleanup_def)
    then show ?thesis
      by (simp add: Pair Inl)
  next
    case (Inr l)
    let ?ok = "isOk (fst (run_cleanup (loc_cleanup l) w))"
    let ?sz = "case fs_stat_size env (loc_path l) w of None \<Rightarrow> length mediaBuf | Some n \<Rightarrow> n"
    let ?ex = "\<lambda>frameBuffers. \<lparr>ex_frameBuffers = frameBuffers, ex_stamps = stamps, ex_usedMode = Disk,
                                ex_fallbackToDisk = True, ex_sizeBytes = ?sz\<rparr>"
    let ?rf = "case run_cleanup (loc_cleanup l) w of
                 (Inl e, w') \<Rightarrow> Inl e
               | (Inr u, w') \<Rightarrow>
                   (case extract_frames env (loc_path l) stamps conc of
                      Inl e \<Rightarrow> Inl e
                    | Inr frameBuffers \<Rightarrow> Inr (?ex frameBuffers))"
    let ?sf = "?s0\<lparr>world := snd (run_cleanup (loc_cleanup l) w),
                   calls := calls ?s0 @ [EvGetMediaBuffer, EvProbeDuration, EvExtractAuto,
                                         EvEnsureLocalPath, EvExtractFrames (loc_path l),
                                         EvLocCleanup (loc_cleanup l) ?ok]\<rparr>"
    have st: "frames_stage env Ram videoUrl frames opts ?s0 = (?rf, ?sf)"
      unfolding frames_stage_def stamps conc
      using frames_ram_zero [OF buf size probe zero acq0 [unfolded Inr]] by simp
    have rf: "\<And>ex. ?rf = Inr ex \<longleftrightarrow>
                ?ok \<and> (\<exists>frameBuffers. extract_frames env (loc_path l) stamps conc = Inr frameBuffers \<and>
                                       ex = ?ex frameBuffers)"
      by (auto split: sum.splits prod.splits)
    note x = classifyVideo_exit [OF run ent fr st]
    have tr: "\<exists>n. calls s' = calls s @ [EvGetMediaBuffer, EvProbeDuration, EvExtractAuto,
                                         EvEnsureLocalPath, EvExtractFrames (loc_path l),
                                         EvLocCleanup (loc_cleanup l) ?ok]
                                   @ replicate n (EvCleanup None True) \<and>
               (n = 1 \<or> n = 2)"
      using x(3) x(4) by (auto simp: run_cleanup_def)
    have wd: "world s' = snd (run_cleanup (loc_cleanup l) w)"
      using x(2) by (simp add: run_cleanup_def)
    have "isOk r = isOk (fst (classifyVideo env Ram videoUrl opts s))"
      using run by simp
    also have "\<dots> \<longleftrightarrow> (\<exists>ex. ?rf = Inr ex \<and> isOk (process_frames env targetW targetH opts ex))"
      unfolding classifyVideo_returns_iff [OF ent fr sh st]
      by (simp add: run_cleanup_def)
    also have "\<dots> \<longleftrightarrow> ?ok \<and> (\<exists>frameBuffers.
                extract_frames env (loc_path l) stamps conc = Inr frameBuffers \<and>
                isOk (process_frames env targetW targetH opts (?ex frameBuffers)))"
      unfolding rf by blast
    finally have ok: "isOk r \<longleftrightarrow> ?ok \<and> (\<exists>frameBuffers.
                extract_frames env (loc_path l) stamps conc = Inr frameBuffers \<and>
                isOk (process_frames env targetW targetH opts (?ex frameBuffers)))" .
    have res: "io_mode_used (v_io out) = Disk \<and> io_fallbackToDisk (v_io out) \<and>
             io_sizeBytes (v_io out) = ?sz \<and>
             (\<exists>frameBuffers frameCount agg.
                extract_frames env (loc_path l) stamps conc = Inr frameBuffers \<and>
                process_frames env targetW targetH opts (?ex frameBuffers)
                  = Inr (frameCount, agg, v_results out) \<and>
                v_aggregate out = overall_preds env (top_k env (opt_topK opts)) frameCount agg \<and>
                (\<not> opt_turboMode opts \<longrightarrow> length (v_results out) = length frameBuffers))"
      if out: "r = Inr out" for out
    proof -
      from run [unfolded out] obtain frames' targetH' targetW' ex sf' frameCount agg results0 s1 where
        fr': "with_default (Num 10) (opt_frames opts) = Num frames'"
        and sh': "input_shape env = Some (targetH', targetW')"
        and st': "frames_stage env Ram videoUrl frames' opts ?s0 = (Inr ex, sf')"
        and pr: "process_frames env targetW' targetH' opts ex = Inr (frameCount, agg, results0)"
        and fi: "finish env videoUrl frames' (opt_turboMode opts)
                   (with_default default_maxBytes (opt_maxBytes opts)) (top_k env (opt_topK opts))
                   ex (frameCount, agg, results0) sf' = (Inr out, s1)"
        by (rule classifyVideo_Inr)
      have eq: "frames' = frames" "targetH' = targetH" "targetW' = targetW"
        using fr fr' sh sh' by simp_all
      have "?rf = Inr ex"
        using st st' unfolding eq by simp
      then obtain frameBuffers where
        fb: "extract_frames env (loc_path l) stamps conc = Inr frameBuffers"
        and ex: "ex = ?ex frameBuffers"
        unfolding rf by blast
      note f = finish_Inr [OF fi]
      have p: "process_frames env targetW targetH opts (?ex frameBuffers)
                 = Inr (frameCount, agg, v_results out)"
        using pr unfolding eq ex f(2) .
      have len: "\<not> opt_turboMode opts \<longrightarrow> length (v_results out) = length frameBuffers"
        using process_frames_count(2) [OF p] by simp
      have io: "io_mode_used (v_io out) = Disk \<and> io_fallbackToDisk (v_io out) \<and>
                io_sizeBytes (v_io out) = ?sz"
        unfolding f(1) ex by simp
      show ?thesis
        using io fb p f(3) len by blast
    qed
    show ?thesis
      unfolding Pair Inr using tr wd ok res by simp
  qed
qed

theorem ram_zero_frames_falls_back_to_disk_witness:
  "(case fst (classifyVideo example_env Ram (Buffer [1, 2, 3]) default_opts init_state) of
      Inl e \<Rightarrow> False
    | Inr out \<Rightarrow>
        io_mode_used (v_io out) = Disk \<and> io_fallbackToDisk (v_io out) \<and>
        io_sizeBytes (v_io out) = 3 \<and> length (v_results out) = 10) \<and>
   calls (snd (classifyVideo example_env Ram (Buffer [1, 2, 3]) default_opts init_state))
     = [EvGetMediaBuffer, EvProbeDuration, EvExtractAuto, EvEnsureLocalPath,
        EvExtractFrames (TempInput 0), EvLocCleanup (Some 0) True,
        EvCleanup None True, EvCleanup None True] \<and>
   tmp_dirs (world (snd (classifyVideo example_env Ram (Buffer [1, 2, 3]) default_opts init_state))) = []"
proof -
  let ?X = "classifyVideo example_env Ram (Buffer [1, 2, 3]) default_opts init_state"
  let ?l = "\<lparr>loc_path = TempInput 0, loc_cleanup = Some 0\<rparr>"
  let ?w = "empty_fs\<lparr>tmp_dirs := [0], tmp_files := [(0, [1, 2, 3])], next_dir := 1\<rparr>"
  have x: "?X = (fst ?X, snd ?X)"
    by simp
  have e: "enters_try example_env (Buffer [1, 2, 3]) default_opts"
    by code_simp
  have f: "with_default (Num 10) (opt_frames default_opts) = Num 10"
    by code_simp
  have sh: "input_shape example_env = Some (2, 2)"
    by code_simp
  have b: "getMediaBuffer example_env (Buffer [1, 2, 3]) = Inr [1, 2, 3]"
    by code_simp
  have sz: "size_check (with_default default_maxBytes (opt_maxBytes default_opts)) (length [1, 2, 3 :: nat])
              = Inr ()"
    by code_simp
  have p: "probe_buffer example_env [1, 2, 3] = Some 10" "(0 :: rat) < 10"
    by (simp_all add: example_env_def)
  have z: "extract_auto example_env [1, 2, 3] \<lfloor>10 :: rat\<rfloor> 10 = Inr []"
    by (simp add: example_env_def)
  have a: "ensureLocalPathWithCleanup example_env (Buffer [1, 2, 3]) (world init_state) = (Inr ?l, ?w)"
    by code_simp
  have c: "run_cleanup (Some 0) ?w = (Inr (), empty_fs\<lparr>next_dir := 1\<rparr>)"
    by code_simp
  have st: "fs_stat_size example_env (TempInput 0) ?w = Some 3"
    by code_simp
  have ok: "isOk (fst ?X)"
    by code_simp
  then obtain out where o: "fst ?X = Inr out"
    by (cases "fst ?X") auto
  have n: "map_sum id (length \<circ> v_results) (fst ?X) = Inr 10"
    by code_simp
  have tr: "calls (snd ?X)
     = [EvGetMediaBuffer, EvProbeDuration, EvExtractAuto, EvEnsureLocalPath,
        EvExtractFrames (TempInput 0), EvLocCleanup (Some 0) True,
        EvCleanup None True, EvCleanup None True]"
    by code_simp
  note t = ram_zero_frames_falls_back_to_disk [OF x e f sh b sz p z refl refl, unfolded a prod.case sum.case]
  from t have wd: "world (snd ?X) = snd (run_cleanup (loc_cleanup ?l) ?w)"
    by blast
  from t o have io: "io_mode_used (v_io out) = Disk \<and> io_fallbackToDisk (v_io out) \<and>
      io_sizeBytes (v_io out) = (case fs_stat_size example_env (loc_path ?l) ?w of
                                   None \<Rightarrow> length [1, 2, 3 :: nat] | Some n \<Rightarrow> n)"
    by blast
  have "tmp_dirs (world (snd ?X)) = []"
    unfolding wd using c by (simp add: empty_fs_def)
  then show ?thesis
    using o n tr io st by simp
qed


section \<open>Properties of video classification: rows and labels\<close>

lemma length_slice0:
  "length (slice0 k xs) = (if 0 \<le> k then min (length xs) (nat k) else length xs - nat (- k))"
  by (simp add: slice0_def)

lemma length_insert_by: "length (insert_by cmp x xs) = Suc (length xs)"
  by (induction xs) auto

lemma length_sort_by: "length (sort_by cmp xs) = length xs"
  by (induction xs) (auto simp: sort_by_def length_insert_by)

lemma length_ranked: "length (ranked env f idxs) = length idxs"
  by (simp add: ranked_def)

lemma length_frame_preds:
  "length (frame_preds env k scores) = length (slice0 k [0..<length scores])"
  by (simp add: frame_preds_def Let_def length_ranked length_slice0 length_sort_by)

lemma length_overall_preds:
  "length (overall_preds env k frameCount agg) = length (slice0 k [0..<length agg])"
  by (simp add: overall_preds_def Let_def length_slice0 length_ranked length_sort_by)

lemma length_add_scores: "length (add_scores agg row) = max (length agg) (length row)"
  by (induction agg row rule: add_scores.induct) auto

lemma length_fold_add_scores:
  "list_all (\<lambda>row. length row = w) probs \<Longrightarrow>
     length (fold (\<lambda>scores agg. add_scores agg scores) probs agg)
       = (if probs = [] then length agg else max (length agg) w)"
  by (induction probs arbitrary: agg) (auto simp: length_add_scores)

lemma sequential_frames_width:
  assumes "\<forall>ts probs. predict env ts = Inr probs \<longrightarrow> list_all (\<lambda>row. length row = w) probs"
  shows "sequential_frames env targetW targetH centerCrop k stamps bufs i (fc, agg, res)
           = Inr (fc', agg', res') \<Longrightarrow>
         list_all (\<lambda>fr. length (frame_predictions fr) = length (slice0 k [0..<w])) res \<Longrightarrow>
         list_all (\<lambda>fr. length (frame_predictions fr) = length (slice0 k [0..<w])) res' \<and>
         length agg' = (if bufs = [] then length agg else max (length agg) w) \<and>
         (res' = [] \<longleftrightarrow> res = [] \<and> bufs = [])"
proof (induction bufs arbitrary: i fc agg res)
  case Nil
  then show ?case by simp
next
  case (Cons buf rest)
  from Cons.prems(1) obtain imageTensor scores others where
    p: "predict env [imageTensor] = Inr (scores # others)"
    and rec: "sequential_frames env targetW targetH centerCrop k stamps rest (Suc i)
                (Suc fc, add_scores agg scores, res @ [frame_result env k stamps i scores])
              = Inr (fc', agg', res')"
    by (auto split: sum.splits list.splits)
  have w: "length scores = w"
    using assms p by fastforce
  have pre: "list_all (\<lambda>fr. length (frame_predictions fr) = length (slice0 k [0..<w]))
               (res @ [frame_result env k stamps i scores])"
    using Cons.prems(2) w by (simp add: frame_result_def length_frame_preds)
  from Cons.IH [OF rec pre] show ?case
    by (auto simp: length_add_scores w)
qed

lemma process_frames_width:
  assumes width: "\<forall>ts probs. predict env ts = Inr probs \<longrightarrow> list_all (\<lambda>row. length row = w) probs"
    and pr: "process_frames env targetW targetH opts ex = Inr (frameCount, agg, results0)"
  shows "list_all (\<lambda>fr. length (frame_predictions fr)
                          = length (slice0 (top_k env (opt_topK opts)) [0..<w])) results0 \<and>
         length agg = (if results0 = [] then length (classes env) else max (length (classes env)) w)"
proof (cases "opt_turboMode opts")
  case True
  with pr obtain tensors probs where
    p: "predict env tensors = Inr probs"
    and fc: "frameCount = length probs"
    and ag: "agg = fold (\<lambda>scores agg. add_scores agg scores) probs
                     (replicate (length (classes env)) (Num 0))"
    and rs: "results0 = map (\<lambda>(i, scores). frame_result env (top_k env (opt_topK opts)) (ex_stamps ex) i scores)
                           (enumerate 0 probs)"
    by (auto simp: process_frames_def turbo_frames_def split: sum.splits)
  have rows: "list_all (\<lambda>row. length row = w) probs"
    using width p by blast
  have e: "(results0 = []) = (probs = [])"
    by (simp add: rs enumerate_eq_zip)
  have "list_all (\<lambda>fr. length (frame_predictions fr)
                          = length (slice0 (top_k env (opt_topK opts)) [0..<w])) results0"
    using rows unfolding rs
    by (auto simp: list_all_iff frame_result_def length_frame_preds enumerate_eq_zip
             dest!: set_zip_rightD)
  then show ?thesis
    using length_fold_add_scores [OF rows] e by (simp add: ag)
next
  case False
  then have s: "sequential_frames env targetW targetH (opt_centerCrop opts) (top_k env (opt_topK opts))
             (ex_stamps ex) (ex_frameBuffers ex) 0 (0, replicate (length (classes env)) (Num 0), [])
           = Inr (frameCount, agg, results0)"
    using pr by (simp add: process_frames_def)
  from sequential_frames_width [OF width s] show ?thesis
    by auto
qed

text \<open>
  C6 (as the code has it). The width of the engine's rows is never compared with the number
  of labels. When every row the engine returns has width \<open>w\<close>, whatever the number of
  labels, every frame of a returned video result has as many predictions as \<open>slice(0, k)\<close>
  keeps of \<open>w\<close> columns (\<open>min(k, w)\<close> for \<open>k \<ge> 0\<close>), and the aggregate has as many as
  \<open>slice(0, k)\<close> keeps of \<open>max(labels, w)\<close> classes (of the labels alone when no frame was
  scored), where \<open>k = min(topK ?? labels, labels)\<close>.
\<close>

theorem row_width_is_not_checked:
  assumes run: "classifyVideo env ioMode videoUrl opts s = (Inr out, s')"
    and width: "\<forall>ts probs. predict env ts = Inr probs \<longrightarrow> list_all (\<lambda>row. length row = w) probs"
  shows "list_all (\<lambda>fr. length (frame_predictions fr)
                          = length (slice0 (top_k env (opt_topK opts)) [0..<w])) (v_results out) \<and>
         length (v_aggregate out)
           = length (slice0 (top_k env (opt_topK opts))
                       [0..<(if v_results out = [] then length (classes env)
                             else max (length (classes env)) w)])"
proof -
  from run obtain frames targetH targetW ex sf frameCount agg results0 s1 where
    pr: "process_frames env targetW targetH opts ex = Inr (frameCount, agg, results0)"
    and fi: "finish env videoUrl frames (opt_turboMode opts)
       (with_default default_maxBytes (opt_maxBytes opts)) (top_k env (opt_topK opts))
       ex (frameCount, agg, results0) sf = (Inr out, s1)"
    by (rule classifyVideo_Inr)
  note f = finish_Inr [OF fi]
  from process_frames_width [OF width pr] show ?thesis
    by (simp add: f(2) f(3) length_overall_preds length_slice0)
qed

theorem row_width_is_not_checked_witness:
  "(case fst (classifyVideo mismatch_env Disk (Buffer [1, 2, 3]) default_opts init_state) of
      Inl e \<Rightarrow> False
    | Inr out \<Rightarrow>
        list_all (\<lambda>fr. length (frame_predictions fr) = 4) (v_results out) \<and>
        length (v_aggregate out) = 5 \<and> length (v_results out) = 10)"
proof -
  let ?X = "classifyVideo mismatch_env Disk (Buffer [1, 2, 3]) default_opts init_state"
  have ok: "isOk (fst ?X)"
    by code_simp
  then obtain out where o: "fst ?X = Inr out"
    by (cases "fst ?X") auto
  then have x: "?X = (Inr out, snd ?X)"
    by (simp add: prod_eq_iff)
  have w: "\<forall>ts probs. predict mismatch_env ts = Inr probs \<longrightarrow> list_all (\<lambda>row. length row = 4) probs"
    by (auto simp: mismatch_env_def example_env_def list_all_iff)
  have n: "map_sum id (length \<circ> v_results) (fst ?X) = Inr 10"
    by code_simp
  then have ne: "v_results out \<noteq> []" "length (v_results out) = 10"
    using o by auto
  have k: "top_k mismatch_env (opt_topK default_opts) = 5"
    by code_simp
  have l: "length (classes mismatch_env) = 5"
    by code_simp
  from row_width_is_not_checked [OF x w]
  have "list_all (\<lambda>fr. length (frame_predictions fr) = 4) (v_results out) \<and>
        length (v_aggregate out) = 5"
    using ne k l by (simp add: length_slice0)
  then show ?thesis
    using o ne by simp
qed

theorem label_mismatch_is_accepted:
  "length (classes mismatch_env) = 5 \<and>
   predict mismatch_env [[0]] = Inr [[1 / 10, 4 / 10, 2 / 10, 3 / 10]] \<and>
   isOk (fst (classifyVideo mismatch_env Disk (Buffer [1, 2, 3]) default_opts init_state)) \<and>
   map_sum id (map (length \<circ> frame_predictions) \<circ> v_results)
     (fst (classifyVideo mismatch_env Disk (Buffer [1, 2, 3])
             (default_opts\<lparr>opt_frames := Some (Num 2)\<rparr>) init_state))
     = Inr [4, 4]"
  by code_simp


text \<open>
  The image paths with the same five labels and four columns: with \<open>topK = 2\<close> the single
  image call and the batch call return two predictions; with \<open>topK\<close> undefined
  (\<open>k = 5\<close>) it is the engine's top-k that rejects \<open>k\<close>, with its own error.
\<close>

lemma image_paths_accept_label_mismatch:
  "map_sum id (map_option (map cls) \<circ> predictions)
     (classifyImage mismatch_env (Buffer [1]) (Some 2) True) = Inr (Some [Some ''b'', Some ''d'']) \<and>
   map_sum id (map (map_option (map cls) \<circ> predictions) \<circ> results)
     (classifyBatch mismatch_env [Buffer [1]] (Some 2) True None) = Inr [Some [Some ''b'', Some ''d'']] \<and>
   classifyImage mismatch_env (Buffer [1]) None True
     = Inl (External ''topk: k exceeds the last dimension'')"
  by code_simp


section \<open>Properties of video classification: zero frames\<close>















text \<open>
  The same request with \<open>topK\<close> given: \<open>topK = 1\<close> keeps the first label, \<open>topK = 0\<close> keeps
  none (the one case in which the aggregate of a zero-frame result is empty when there are
  labels and \<open>topK\<close> is not negative), \<open>topK = -1\<close> keeps all but the last.
\<close>

lemma zero_frames_aggregate_topK_examples:
  "map_sum id v_aggregate
     (fst (classifyVideo no_frames_env Disk (Buffer [1, 2, 3]) (default_opts\<lparr>opt_topK := Some 1\<rparr>)
             init_state))
     = Inr [\<lparr>cls = Some ''cat'', score = Some (Num 0), rank = 1\<rparr>] \<and>
   map_sum id v_aggregate
     (fst (classifyVideo no_frames_env Disk (Buffer [1, 2, 3]) (default_opts\<lparr>opt_topK := Some 0\<rparr>)
             init_state))
     = Inr [] \<and>
   map_sum id v_aggregate
     (fst (classifyVideo no_frames_env Disk (Buffer [1, 2, 3]) (default_opts\<lparr>opt_topK := Some (- 1)\<rparr>)
             init_state))
     = Inr [\<lparr>cls = Some ''cat'', score = Some (Num 0), rank = 1\<rparr>] \<and>
   map_sum id v_aggregate
     (fst (classifyVideo no_frames_env Ram (Buffer [1, 2, 3]) default_opts init_state))
     = Inr [\<lparr>cls = Some ''cat'', score = Some (Num 0), rank = 1\<rparr>,
            \<lparr>cls = Some ''dog'', score = Some (Num 0), rank = 2\<rparr>]"
  by code_simp

end
